theory Spec2Isabelle
  imports Main "HOL-Library.Word"
begin

unbundle bit_operations_syntax

section \<open>Tab5GitHubStatus: status poller, snapshot hand-off, screensaver and matrix rain\<close>

text \<open>
  A shallow embedding of \<^verbatim>\<open>Tab5GitHubStatus.ino\<close> (the version with the background
  fetch task). C strings held in fixed \<^verbatim>\<open>char\<close> buffers are modelled by their contents
  (the bytes before the terminating NUL) as \<^typ>\<open>string\<close>; a copy into a buffer of
  \<open>n + 1\<close> bytes keeps the first \<open>n\<close> characters. Fixed arrays are lists of the array's
  length. Calls into the external collaborators (HTTP client, JSON decoder, clock, random
  number generator, touch panel) are inputs of the step functions; calls into the widget
  and display sink are recorded in a log.

  The fetch task and the foreground loop run on different cores. Each touches the shared
  slot only while it holds the mutex, so a cycle of the task (\<open>fetchTaskFunc\<close>) and an
  iteration of the loop (\<open>loop\<close>) are modelled as steps on one state, taken in any
  order; a failed attempt to get the mutex within its bound is an input of the step. The
  task's unguarded read of the previous-status table only feeds the \<open>statusChanged\<close>
  field of its result, which the foreground does not read.
\<close>

subsection \<open>Constants\<close>

definition MAX_COMPONENTS :: nat where
  "MAX_COMPONENTS = 10"

definition HTTP_CODE_OK :: int where
  "HTTP_CODE_OK = 200"

definition SCREENSAVER_TIMEOUT :: "32 word" where
  "SCREENSAVER_TIMEOUT = 300000"

definition MATRIX_FRAME_MS :: "32 word" where
  "MATRIX_FRAME_MS = 33"

definition MATRIX_CHAR_W :: int where
  "MATRIX_CHAR_W = 22"

definition MATRIX_CHAR_H :: int where
  "MATRIX_CHAR_H = 30"

definition MATRIX_MAX_COLS :: nat where
  "MATRIX_MAX_COLS = 1280 div 22 + 1"

definition MATRIX_ROWS_MAX :: nat where
  "MATRIX_ROWS_MAX = 720 div 30 + 2"

subsection \<open>C strings and formatting\<close>

text \<open>
  \<^verbatim>\<open>strncpy(dst, src, n)\<close>: the destination holds at most the first \<open>n\<close> characters of
  the source. Where \<open>n\<close> is the size of the buffer less one, byte \<open>n\<close> of the buffer is NUL
  (zeroed before, or written after the copy); where \<open>n\<close> is the size of the buffer, the
  source is a literal or a terminated buffer of the same size.
\<close>

definition strncpy :: "nat \<Rightarrow> string \<Rightarrow> string" where
  "strncpy n src = take n src"

text \<open>\<^verbatim>\<open>strncmp(s, p, n) == 0\<close> for a literal \<open>p\<close> of exactly \<open>n\<close> characters.\<close>

definition strncmp_eq :: "string \<Rightarrow> string \<Rightarrow> nat \<Rightarrow> bool" where
  "strncmp_eq s p n = (take n s = take n p)"

definition digit_char :: "nat \<Rightarrow> char" where
  "digit_char d = ''0123456789'' ! (d mod 10)"

fun dec_nat :: "nat \<Rightarrow> string" where
  "dec_nat n = (if n < 10 then [digit_char n] else dec_nat (n div 10) @ [digit_char (n mod 10)])"

declare dec_nat.simps [simp del]

text \<open>The conversion \<^verbatim>\<open>%d\<close> of \<^verbatim>\<open>printf\<close>.\<close>

definition dec_int :: "int \<Rightarrow> string" where
  "dec_int i = (if i < 0 then CHR ''-'' # dec_nat (nat (- i)) else dec_nat (nat i))"

text \<open>The conversions \<^verbatim>\<open>%H\<close>, \<^verbatim>\<open>%M\<close>, \<^verbatim>\<open>%S\<close> of \<^verbatim>\<open>strftime\<close>: two digits.\<close>

definition two_digits :: "nat \<Rightarrow> string" where
  "two_digits n = [digit_char (n div 10), digit_char (n mod 10)]"

subsection \<open>Shared data between the fetch task and the foreground loop\<close>

record ComponentResult =
  name :: string
  status :: string

record FetchResult =
  valid :: bool
  statusChanged :: bool
  allOperational :: bool
  worstSeverity :: nat
  hasIncidents :: bool
  componentCount :: nat
  components :: "ComponentResult list"
  statusBarText :: string

text \<open>\<^verbatim>\<open>memset(&res, 0, sizeof(res))\<close>: every flag false, every buffer the empty string.\<close>

definition zeroComponent :: ComponentResult where
  "zeroComponent = \<lparr>name = [], status = []\<rparr>"

definition zeroResult :: FetchResult where
  "zeroResult = \<lparr>valid = False, statusChanged = False, allOperational = False,
     worstSeverity = 0, hasIncidents = False, componentCount = 0,
     components = replicate MAX_COMPONENTS zeroComponent, statusBarText = []\<rparr>"

subsection \<open>The background fetch task\<close>

text \<open>One element of the feed's \<^verbatim>\<open>components\<close> array, as the JSON decoder returns it.\<close>

record feed_entry =
  comp_name :: string
  comp_status :: string
  only_show_if_degraded :: bool

text \<open>What the collaborators return during one cycle of the task.\<close>

record fetch_env =
  wifiConnected :: bool
  httpCode :: int
  payload :: "feed_entry list option"
  localTime :: "(nat \<times> nat \<times> nat) option"
  incidentsHttpCode :: int
  incidentsPayload :: "nat option"
  publishLock :: bool

text \<open>The local \<^verbatim>\<open>res\<close> after its initialisation at the top of a cycle.\<close>

definition initResult :: FetchResult where
  "initResult = zeroResult\<lparr>valid := False, allOperational := True, worstSeverity := 0,
                            hasIncidents := False, statusChanged := False\<rparr>"

text \<open>The severity classification of one component status (the \<^verbatim>\<open>if\<close> chain of the loop body).\<close>

definition classify :: "string \<Rightarrow> FetchResult \<Rightarrow> FetchResult" where
  "classify st res =
     (if st = ''major_outage'' then res\<lparr>allOperational := False, worstSeverity := 2\<rparr>
      else if st = ''degraded_performance'' \<or> st = ''partial_outage'' then
        (let res1 = res\<lparr>allOperational := False\<rparr>
         in if worstSeverity res1 < 1 then res1\<lparr>worstSeverity := 1\<rparr> else res1)
      else if st \<noteq> ''operational'' then res\<lparr>allOperational := False\<rparr>
      else res)"

text \<open>
  The loop over the feed's components: \<open>prev\<close> is the previous-status table as the task
  reads it, \<open>idx\<close> the next free slot. Returns the final \<open>idx\<close> and the result.
\<close>

fun component_loop :: "string list \<Rightarrow> feed_entry list \<Rightarrow> nat \<Rightarrow> FetchResult \<Rightarrow> nat \<times> FetchResult" where
  "component_loop prev [] idx res = (idx, res)"
| "component_loop prev (entry # rest) idx res =
     (if idx \<ge> MAX_COMPONENTS then (idx, res)
      else if only_show_if_degraded entry then component_loop prev rest idx res
      else if strncmp_eq (comp_name entry) ''Visit'' 5 then component_loop prev rest idx res
      else
        (let res1 = res\<lparr>components := (components res)
                      [idx := \<lparr>name = strncpy 47 (comp_name entry),
                                status = strncpy 31 (comp_status entry)\<rparr>]\<rparr>;
             res2 = (if prev ! idx \<noteq> comp_status entry then res1\<lparr>statusChanged := True\<rparr> else res1);
             res3 = classify (comp_status entry) res2
         in component_loop prev rest (idx + 1) res3))"

text \<open>The first request: the components feed (the block under "Fetch components").\<close>

definition fetch_components :: "string list \<Rightarrow> fetch_env \<Rightarrow> FetchResult \<Rightarrow> FetchResult" where
  "fetch_components prev env res =
     (if httpCode env = HTTP_CODE_OK then
        (case payload env of
           Some comps \<Rightarrow>
             (let (idx, res1) = component_loop prev comps 0 res;
                  res2 = res1\<lparr>componentCount := idx, valid := True\<rparr>
              in (case localTime env of
                    Some (h, m, s) \<Rightarrow>
                      res2\<lparr>statusBarText := ''Updated: '' @ two_digits h @ '':'' @ two_digits m
                                               @ '':'' @ two_digits s\<rparr>
                  | None \<Rightarrow> res2\<lparr>statusBarText := strncpy 48 ''Updated''\<rparr>))
         | None \<Rightarrow> res\<lparr>statusBarText := strncpy 48 ''JSON parse error''\<rparr>)
      else res\<lparr>statusBarText := take 47 (''HTTP error: '' @ dec_int (httpCode env))\<rparr>)"

text \<open>The second request: the unresolved incidents feed.\<close>

definition fetch_incidents :: "fetch_env \<Rightarrow> FetchResult \<Rightarrow> FetchResult" where
  "fetch_incidents env res =
     (if incidentsHttpCode env = HTTP_CODE_OK then
        (case incidentsPayload env of
           Some n \<Rightarrow> res\<lparr>hasIncidents := (n > 0)\<rparr>
         | None \<Rightarrow> res)
      else res)"

text \<open>The local result \<^verbatim>\<open>res\<close> of one cycle with the network up, as it is when the task
  reaches the publishing block.\<close>

definition build_result :: "string list \<Rightarrow> fetch_env \<Rightarrow> FetchResult" where
  "build_result prev env =
     (let res1 = fetch_components prev env initResult;
          res2 = fetch_incidents env res1
      in if hasIncidents res2 \<and> worstSeverity res2 < 1 then res2\<lparr>worstSeverity := 1\<rparr> else res2)"

subsection \<open>Foreground state\<close>

datatype theme_color = SECONDARY | ACCENT | DANGER | TEXT_DISABLED

text \<open>Calls into the widget and display sink, in the order they are made.\<close>

datatype ui_call =
    SetRightText string
  | BannerSetText string
  | BannerSetBgColor theme_color
  | NameSetText nat string
  | StatusSetText nat string
  | StatusSetTextColor nat theme_color
  | IconSetFillColor nat theme_color
  | IconSetBorderColor nat theme_color
  | IconSetIconChar nat string
  | SetFont
  | ClearScreen
  | FillScreen
  | DrawAll
  | DrawGridLines
  | CreateSprite
  | DeleteSprite
  | SpriteFill
  | DrawGlyph int nat "16 word"
  | PushSprite int

record MatrixColumn =
  headY :: int
  speed :: int
  length_col :: int
  active :: bool
  spawnDelay :: nat

text \<open>
  The globals of the sketch. \<open>allOperational_g\<close> is the global \<^verbatim>\<open>allOperational\<close> (the
  field of \<^typ>\<open>FetchResult\<close> has the name); \<open>colSprite\<close> tells whether the strip sprite
  is allocated; \<open>ui_log\<close> collects the calls into the sink.
\<close>

record app_state =
  screenW :: int
  screenH :: int
  screensaverActive :: bool
  allOperational_g :: bool
  hasUnresolvedIncidents :: bool
  matrixSeverity :: nat
  cachedStatusText :: string
  prevStatus :: "string list"
  fetchResult :: FetchResult
  newDataReady :: bool
  lastTouchTime :: "32 word"
  lastFrameTime :: "32 word"
  colSprite :: bool
  matrixCols :: "MatrixColumn list"
  matrixGlyphIdx :: "nat list list"
  matrixColors :: "16 word list list"
  ui_log :: "ui_call list"

definition ui :: "ui_call list \<Rightarrow> app_state \<Rightarrow> app_state" where
  "ui calls s = s\<lparr>ui_log := ui_log s @ calls\<rparr>"

subsection \<open>Publishing (the two blocks of the fetch task that take the mutex)\<close>

text \<open>The network is down: only \<^verbatim>\<open>valid\<close> and \<^verbatim>\<open>statusBarText\<close> of the slot are written.\<close>

definition publish_wifi_error :: "bool \<Rightarrow> app_state \<Rightarrow> app_state" where
  "publish_wifi_error lockOk s =
     (if lockOk then
        s\<lparr>fetchResult := (fetchResult s)\<lparr>valid := False,
                             statusBarText := strncpy 48 ''WiFi disconnected''\<rparr>,
          newDataReady := True\<rparr>
      else s)"

text \<open>The result of a cycle is copied whole into the slot.\<close>

definition publish :: "bool \<Rightarrow> FetchResult \<Rightarrow> app_state \<Rightarrow> app_state" where
  "publish lockOk res s =
     (if lockOk then s\<lparr>fetchResult := res, newDataReady := True\<rparr> else s)"

text \<open>One iteration of the task's endless loop, after the delay.\<close>

definition fetchTaskFunc :: "fetch_env \<Rightarrow> app_state \<Rightarrow> app_state" where
  "fetchTaskFunc env s =
     (if \<not> wifiConnected env then publish_wifi_error (publishLock env) s
      else publish (publishLock env) (build_result (prevStatus s) env) s)"

subsection \<open>Status to colour, text and icon\<close>

definition statusColor :: "string \<Rightarrow> theme_color" where
  "statusColor s =
     (if s = ''operational'' then SECONDARY
      else if s = ''degraded_performance'' then ACCENT
      else if s = ''partial_outage'' then ACCENT
      else if s = ''major_outage'' then DANGER
      else TEXT_DISABLED)"

definition statusDisplayText :: "string \<Rightarrow> string" where
  "statusDisplayText s =
     (if s = ''operational'' then ''Operational''
      else if s = ''degraded_performance'' then ''Degraded Performance''
      else if s = ''partial_outage'' then ''Partial Outage''
      else if s = ''major_outage'' then ''Major Outage''
      else ''Unknown'')"

definition statusIconChar :: "string \<Rightarrow> string" where
  "statusIconChar s =
     (if s = ''operational'' then []
      else if s = ''degraded_performance'' then ''!''
      else if s = ''partial_outage'' then ''!''
      else if s = ''major_outage'' then ''X''
      else ''?'')"

definition updateStatusBanner :: "app_state \<Rightarrow> app_state" where
  "updateStatusBanner s =
     (if allOperational_g s \<and> \<not> hasUnresolvedIncidents s then
        ui [BannerSetText ''All Systems Operational'', BannerSetBgColor SECONDARY] s
      else if matrixSeverity s \<ge> 2 then
        ui [BannerSetText ''Disruption with some GitHub services'', BannerSetBgColor DANGER] s
      else
        ui [BannerSetText ''Disruption with some GitHub services'', BannerSetBgColor ACCENT] s)"

subsection \<open>Leaving the screensaver\<close>

text \<open>\<open>now\<close> is what \<^verbatim>\<open>millis()\<close> returns at the end of the function.\<close>

definition matrixStopScreensaver :: "32 word \<Rightarrow> app_state \<Rightarrow> app_state" where
  "matrixStopScreensaver now s =
     (let s1 = s\<lparr>screensaverActive := False\<rparr>;
          s2 = (if colSprite s1 then ui [DeleteSprite] (s1\<lparr>colSprite := False\<rparr>) else s1);
          s3 = updateStatusBanner s2;
          s4 = ui [SetRightText (cachedStatusText s3), SetFont, ClearScreen, DrawAll, DrawGridLines] s3
      in s4\<lparr>lastTouchTime := now\<rparr>)"

subsection \<open>Applying a fetch result\<close>

text \<open>
  The loop "Update prevStatus and detect changes": the pair is the local flag
  \<^verbatim>\<open>statusChanged\<close> and the table \<^verbatim>\<open>prevStatus\<close>.
\<close>

definition detect_step :: "FetchResult \<Rightarrow> nat \<Rightarrow> bool \<times> string list \<Rightarrow> bool \<times> string list" where
  "detect_step res i acc =
     (case acc of (changed, prev) \<Rightarrow>
        if prev ! i \<noteq> status (components res ! i)
        then (True, prev[i := strncpy 31 (status (components res ! i))])
        else (changed, prev))"

definition detect_changes :: "FetchResult \<Rightarrow> string list \<Rightarrow> bool \<times> string list" where
  "detect_changes res prev = fold (detect_step res) [0..<componentCount res] (False, prev)"

definition widget_calls :: "FetchResult \<Rightarrow> nat \<Rightarrow> ui_call list" where
  "widget_calls res i =
     (let color = statusColor (status (components res ! i))
      in [NameSetText i (name (components res ! i)),
          StatusSetText i (statusDisplayText (status (components res ! i))),
          StatusSetTextColor i color,
          IconSetFillColor i color,
          IconSetBorderColor i color,
          IconSetIconChar i (statusIconChar (status (components res ! i)))])"

text \<open>
  The copy under the mutex at the top of \<^verbatim>\<open>applyFetchResults\<close>: \<open>lockOk\<close> tells whether
  the mutex was obtained within the 50 ms. On success the local copy \<^verbatim>\<open>res\<close> is returned
  and the flag is cleared; otherwise the function returns at once.
\<close>

definition take_result :: "bool \<Rightarrow> app_state \<Rightarrow> (FetchResult \<times> app_state) option" where
  "take_result lockOk s =
     (if \<not> lockOk then None else Some (fetchResult s, s\<lparr>newDataReady := False\<rparr>))"

text \<open>
  The rest of \<^verbatim>\<open>applyFetchResults\<close>, on the local copy \<open>res\<close>; \<open>now\<close> is the clock
  reading used if the screensaver is left.
\<close>

definition apply_result :: "32 word \<Rightarrow> FetchResult \<Rightarrow> app_state \<Rightarrow> app_state" where
  "apply_result now res s1 =
     (let s2 = s1\<lparr>cachedStatusText := strncpy 48 (statusBarText res)\<rparr>
      in if \<not> valid res then
           (if \<not> screensaverActive s2
            then ui [SetRightText (cachedStatusText s2), DrawAll, DrawGridLines] s2
            else s2)
         else
           (let (statusChanged, prev) = detect_changes res (prevStatus s2);
                s3 = s2\<lparr>prevStatus := prev\<rparr>;
                incidentChanged = (hasUnresolvedIncidents s3 \<noteq> hasIncidents res);
                s4 = s3\<lparr>allOperational_g := allOperational res,
                        hasUnresolvedIncidents := hasIncidents res,
                        matrixSeverity := worstSeverity res\<rparr>;
                s5 = (if (statusChanged \<or> incidentChanged) \<and> screensaverActive s4
                      then matrixStopScreensaver now s4 else s4)
            in if \<not> screensaverActive s5 then
                 (let s6 = ui (concat (map (widget_calls res) [0..<componentCount res])) s5;
                      s7 = updateStatusBanner s6
                  in ui [SetRightText (cachedStatusText s7), DrawAll, DrawGridLines] s7)
               else s5))"

definition applyFetchResults :: "bool \<Rightarrow> 32 word \<Rightarrow> app_state \<Rightarrow> app_state" where
  "applyFetchResults lockOk now s =
     (case take_result lockOk s of
        None \<Rightarrow> s
      | Some (res, s1) \<Rightarrow> apply_result now res s1)"

subsection \<open>Matrix rain\<close>

text \<open>C integer division truncates towards zero.\<close>

definition c_div :: "int \<Rightarrow> int \<Rightarrow> int" where
  "c_div a b = sgn a * sgn b * (\<bar>a\<bar> div \<bar>b\<bar>)"

text \<open>Storing an \<^verbatim>\<open>int\<close> into an \<^verbatim>\<open>int16_t\<close> and into a \<^verbatim>\<open>uint8_t\<close>.\<close>

definition int16 :: "int \<Rightarrow> int" where
  "int16 x = (x + 32768) mod 65536 - 32768"

definition uint8 :: "int \<Rightarrow> nat" where
  "uint8 x = nat (x mod 256)"

text \<open>
  What \<^verbatim>\<open>random\<close> returns for one column: \<open>rnd_head\<close> for \<^verbatim>\<open>random(MATRIX_CHAR_H * 4)\<close>
  (for \<^verbatim>\<open>random(screenH)\<close> in \<^verbatim>\<open>matrixInit\<close>), \<open>rnd_speed\<close> for \<^verbatim>\<open>random(14, 26)\<close>,
  \<open>rnd_length\<close> for \<^verbatim>\<open>random(8, 24)\<close>, \<open>rnd_delay\<close> for \<^verbatim>\<open>random(5, 40)\<close>.
\<close>

record column_random =
  rnd_head :: int
  rnd_speed :: int
  rnd_length :: int
  rnd_delay :: int

text \<open>
  The contract of the Arduino core: \<^verbatim>\<open>random(max)\<close> lies in \<open>[0, max)\<close> and
  \<^verbatim>\<open>random(min, max)\<close> in \<open>[min, max)\<close>.
\<close>

definition random_in_range :: "column_random \<Rightarrow> bool" where
  "random_in_range r \<longleftrightarrow>
     0 \<le> rnd_head r \<and> rnd_head r < MATRIX_CHAR_H * 4 \<and>
     14 \<le> rnd_speed r \<and> rnd_speed r < 26 \<and>
     8 \<le> rnd_length r \<and> rnd_length r < 24 \<and>
     5 \<le> rnd_delay r \<and> rnd_delay r < 40"

text \<open>
  For one cell: \<open>rnd_flicker4\<close> for \<^verbatim>\<open>random(4)\<close>, \<open>rnd_flicker8\<close> for \<^verbatim>\<open>random(8)\<close>,
  \<open>rnd_glyph\<close> for \<^verbatim>\<open>randomGlyphIndex()\<close>.
\<close>

record cell_random =
  rnd_flicker4 :: int
  rnd_flicker8 :: int
  rnd_glyph :: nat

text \<open>
  The inputs of one frame. \<open>trail565 sev d len\<close> stands for
  \<^verbatim>\<open>color565\<close> of \<^verbatim>\<open>matrixTrailColor(d, len, r, g, b)\<close> under severity \<open>sev\<close>, which is
  computed in floating point.
\<close>

record frame_env =
  col_rnd :: "nat \<Rightarrow> column_random"
  cell_rnd :: "nat \<Rightarrow> nat \<Rightarrow> cell_random"
  trail565 :: "nat \<Rightarrow> int \<Rightarrow> int \<Rightarrow> 16 word"

text \<open>The first \<^verbatim>\<open>if\<close> of the column loop: count down, or start a new drop.\<close>

definition respawn_column :: "column_random \<Rightarrow> MatrixColumn \<Rightarrow> MatrixColumn" where
  "respawn_column r col =
     (if \<not> active col then
        (if spawnDelay col > 0 then col\<lparr>spawnDelay := spawnDelay col - 1\<rparr>
         else col\<lparr>headY := int16 (- rnd_head r),
                  speed := int16 (rnd_speed r),
                  length_col := int16 (rnd_length r),
                  active := True\<rparr>)
      else col)"

text \<open>The second \<^verbatim>\<open>if\<close>: move the head, and retire the drop once its tail has left the screen.\<close>

definition advance_column :: "int \<Rightarrow> column_random \<Rightarrow> MatrixColumn \<Rightarrow> MatrixColumn" where
  "advance_column scrH r col =
     (if active col then
        (let col1 = col\<lparr>headY := int16 (headY col + speed col)\<rparr>
         in if headY col1 - length_col col1 * MATRIX_CHAR_H > scrH
            then col1\<lparr>active := False, spawnDelay := uint8 (rnd_delay r)\<rparr>
            else col1)
      else col)"

definition update_column :: "int \<Rightarrow> column_random \<Rightarrow> MatrixColumn \<Rightarrow> MatrixColumn" where
  "update_column scrH r col = advance_column scrH r (respawn_column r col)"

text \<open>The fade of a cell outside the trail, on the packed RGB565 colour.\<close>

definition fade565 :: "16 word \<Rightarrow> 16 word" where
  "fade565 c =
     (let r = drop_bit 11 c AND 0x1F;
          g = drop_bit 5 c AND 0x3F;
          b = c AND 0x1F;
          r1 = (if r > 2 then r - 2 else 0);
          g1 = (if g > 4 then g - 4 else 0);
          b1 = (if b > 2 then b - 2 else 0)
      in push_bit 11 r1 OR push_bit 5 g1 OR b1)"

text \<open>The trail test of the render loop for the cell in row \<open>row\<close>.\<close>

definition distFromHead :: "MatrixColumn \<Rightarrow> nat \<Rightarrow> int" where
  "distFromHead col row = c_div (headY col - int16 (int row * MATRIX_CHAR_H)) MATRIX_CHAR_H"

definition in_trail :: "MatrixColumn \<Rightarrow> nat \<Rightarrow> bool" where
  "in_trail col row \<longleftrightarrow>
     active col \<and> distFromHead col row \<ge> 0 \<and> distFromHead col row < length_col col"

text \<open>The new glyph and colour of one cell.\<close>

definition render_cell ::
  "(int \<Rightarrow> int \<Rightarrow> 16 word) \<Rightarrow> MatrixColumn \<Rightarrow> cell_random \<Rightarrow> nat \<Rightarrow> nat \<times> 16 word \<Rightarrow> nat \<times> 16 word" where
  "render_cell trail col r row cell =
     (case cell of (glyph, color) \<Rightarrow>
        if in_trail col row then
          (if distFromHead col row = 0 then (rnd_glyph r, 0xFFFF)
           else if distFromHead col row \<le> 2 then
             ((if rnd_flicker4 r = 0 then rnd_glyph r else glyph),
              trail (distFromHead col row) (length_col col))
           else
             ((if rnd_flicker8 r = 0 then rnd_glyph r else glyph),
              trail (distFromHead col row) (length_col col)))
        else
          (if color \<noteq> 0 then (glyph, fade565 color) else (glyph, color)))"

definition render_row :: "frame_env \<Rightarrow> nat \<Rightarrow> nat \<Rightarrow> app_state \<Rightarrow> app_state" where
  "render_row env i row s =
     (let (g, c) = render_cell (trail565 env (matrixSeverity s)) (matrixCols s ! i)
                     (cell_rnd env i row) row
                     (matrixGlyphIdx s ! i ! row, matrixColors s ! i ! row);
          s1 = s\<lparr>matrixGlyphIdx := (matrixGlyphIdx s)[i := (matrixGlyphIdx s ! i)[row := g]],
                 matrixColors := (matrixColors s)[i := (matrixColors s ! i)[row := c]]\<rparr>
      in if c \<noteq> 0 then ui [DrawGlyph (int16 (int row * MATRIX_CHAR_H)) g c] s1 else s1)"

definition numCols :: "app_state \<Rightarrow> nat" where
  "numCols s = min (nat (c_div (screenW s) MATRIX_CHAR_W)) MATRIX_MAX_COLS"

definition numRows :: "app_state \<Rightarrow> nat" where
  "numRows s = nat (c_div (screenH s) MATRIX_CHAR_H)"

definition render_column :: "frame_env \<Rightarrow> nat \<Rightarrow> app_state \<Rightarrow> app_state" where
  "render_column env i s =
     (let s1 = ui [SpriteFill] s;
          s2 = fold (render_row env i) [0..<numRows s1] s1
      in ui [PushSprite (int16 (int i * MATRIX_CHAR_W))] s2)"

definition update_columns :: "frame_env \<Rightarrow> app_state \<Rightarrow> app_state" where
  "update_columns env s =
     s\<lparr>matrixCols :=
         fold (\<lambda>i cols. cols[i := update_column (screenH s) (col_rnd env i) (cols ! i)])
           [0..<numCols s] (matrixCols s)\<rparr>"

definition matrixDrawFrame :: "frame_env \<Rightarrow> app_state \<Rightarrow> app_state" where
  "matrixDrawFrame env s =
     (if \<not> colSprite s then s
      else
        (let s1 = update_columns env s
         in fold (render_column env) [0..<numCols s1] s1))"

subsection \<open>Entering the screensaver\<close>

definition matrixInit :: "(nat \<Rightarrow> column_random) \<Rightarrow> app_state \<Rightarrow> app_state" where
  "matrixInit rnd s =
     s\<lparr>matrixCols :=
         fold (\<lambda>i cols. cols[i := \<lparr>headY = int16 (- rnd_head (rnd i)),
                                   speed = int16 (rnd_speed (rnd i)),
                                   length_col = int16 (rnd_length (rnd i)),
                                   active = True,
                                   spawnDelay = 0\<rparr>])
           [0..<numCols s] (matrixCols s),
       matrixGlyphIdx := replicate MATRIX_MAX_COLS (replicate MATRIX_ROWS_MAX 0),
       matrixColors := replicate MATRIX_MAX_COLS (replicate MATRIX_ROWS_MAX 0)\<rparr>"

definition matrixStartScreensaver :: "32 word \<Rightarrow> (nat \<Rightarrow> column_random) \<Rightarrow> app_state \<Rightarrow> app_state" where
  "matrixStartScreensaver now rnd s =
     (let s1 = s\<lparr>screensaverActive := True\<rparr>;
          s2 = (if \<not> colSprite s1 then ui [CreateSprite] (s1\<lparr>colSprite := True\<rparr>) else s1);
          s3 = ui [FillScreen] s2;
          s4 = matrixInit rnd s3
      in s4\<lparr>lastFrameTime := now\<rparr>)"

subsection \<open>The foreground loop\<close>

text \<open>
  One iteration of \<^verbatim>\<open>loop()\<close>, block by block. The call \<^verbatim>\<open>ui.update()\<close> at its top belongs
  to the widget library and is left out: it uses none of the globals of the sketch.
  What the collaborators return during the iteration: the touch count,
  whether the display sleeps, whether the mutex is obtained, and one clock reading for
  each place that calls \<^verbatim>\<open>millis()\<close> (\<open>t_stop\<close> inside \<^verbatim>\<open>matrixStopScreensaver\<close>,
  \<open>t_start\<close> inside \<^verbatim>\<open>matrixStartScreensaver\<close>).
\<close>

record loop_env =
  touchCount :: nat
  screenAsleep :: bool
  consumeLock :: bool
  t_touch :: "32 word"
  t_stop :: "32 word"
  t_idle :: "32 word"
  t_start :: "32 word"
  t_frame :: "32 word"
  t_drawn :: "32 word"
  init_rnd :: "nat \<Rightarrow> column_random"
  frame :: frame_env

definition touch_block :: "loop_env \<Rightarrow> app_state \<Rightarrow> app_state" where
  "touch_block env s =
     (if touchCount env > 0 then
        (let s1 = s\<lparr>lastTouchTime := t_touch env\<rparr>
         in if screensaverActive s1 then matrixStopScreensaver (t_stop env) s1 else s1)
      else s)"

definition data_block :: "loop_env \<Rightarrow> app_state \<Rightarrow> app_state" where
  "data_block env s =
     (if newDataReady s then applyFetchResults (consumeLock env) (t_stop env) s else s)"

definition idle_block :: "loop_env \<Rightarrow> app_state \<Rightarrow> app_state" where
  "idle_block env s =
     (if \<not> screensaverActive s \<and> \<not> screenAsleep env
         \<and> t_idle env - lastTouchTime s \<ge> SCREENSAVER_TIMEOUT
      then matrixStartScreensaver (t_start env) (init_rnd env) s else s)"

definition animate_block :: "loop_env \<Rightarrow> app_state \<Rightarrow> app_state" where
  "animate_block env s =
     (if screensaverActive s \<and> \<not> screenAsleep env then
        (if t_frame env - lastFrameTime s \<ge> MATRIX_FRAME_MS
         then (matrixDrawFrame (frame env) s)\<lparr>lastFrameTime := t_drawn env\<rparr>
         else s)
      else s)"

definition loop :: "loop_env \<Rightarrow> app_state \<Rightarrow> app_state" where
  "loop env s = animate_block env (idle_block env (data_block env (touch_block env s)))"

subsection \<open>Notions used in the statements\<close>

text \<open>
  The statuses a result carries: those of its first \<open>componentCount\<close> components, as
  stored (at most 31 characters each).
\<close>

definition stored_statuses :: "FetchResult \<Rightarrow> string list" where
  "stored_statuses res = map status (take (componentCount res) (components res))"

text \<open>
  The feed as the specification filters it: entries that are hidden unless degraded and
  entries whose name begins with \<open>Visit\<close> are skipped, the first \<open>MAX_COMPONENTS\<close> of
  the rest are kept, in feed order, and stored with their texts cut to the buffers.
\<close>

definition keep_entry :: "feed_entry \<Rightarrow> bool" where
  "keep_entry e \<longleftrightarrow> \<not> only_show_if_degraded e \<and> \<not> strncmp_eq (comp_name e) ''Visit'' 5"

definition filtered :: "feed_entry list \<Rightarrow> feed_entry list" where
  "filtered comps = take MAX_COMPONENTS (filter keep_entry comps)"

definition store_entry :: "feed_entry \<Rightarrow> ComponentResult" where
  "store_entry e = \<lparr>name = strncpy 47 (comp_name e), status = strncpy 31 (comp_status e)\<rparr>"

text \<open>The severity of a list of component statuses, without the incidents feed.\<close>

definition sev_of :: "string list \<Rightarrow> nat" where
  "sev_of sts =
     (if ''major_outage'' \<in> set sts then 2
      else if ''degraded_performance'' \<in> set sts \<or> ''partial_outage'' \<in> set sts then 1
      else 0)"

text \<open>The four status values the classification knows by name.\<close>

definition known_status :: "string \<Rightarrow> bool" where
  "known_status st \<longleftrightarrow> st = ''operational'' \<or> st = ''degraded_performance''
     \<or> st = ''partial_outage'' \<or> st = ''major_outage''"

text \<open>The invariant of the component loop, on the slots filled so far.\<close>

definition loop_inv :: "nat \<Rightarrow> FetchResult \<Rightarrow> bool" where
  "loop_inv idx res \<longleftrightarrow>
     length (components res) = MAX_COMPONENTS \<and> idx \<le> MAX_COMPONENTS \<and>
     worstSeverity res = sev_of (map status (take idx (components res))) \<and>
     (allOperational res \<longleftrightarrow> (\<forall>st \<in> set (map status (take idx (components res))). st = ''operational''))"

text \<open>
  What the C types guarantee of a \<^verbatim>\<open>FetchResult\<close>: ten component slots, a count within
  them, and status buffers of 32 bytes holding terminated strings.
\<close>

definition wf_result :: "FetchResult \<Rightarrow> bool" where
  "wf_result res \<longleftrightarrow>
     length (components res) = MAX_COMPONENTS \<and> componentCount res \<le> MAX_COMPONENTS \<and>
     (\<forall>c \<in> set (components res). length (status c) \<le> 31)"

text \<open>
  What holds of the shared data in every reachable state: the slot is well formed and
  the previous-status table has its ten entries.
\<close>

definition state_inv :: "app_state \<Rightarrow> bool" where
  "state_inv s \<longleftrightarrow> wf_result (fetchResult s) \<and> length (prevStatus s) = MAX_COMPONENTS"

text \<open>The test \<^verbatim>\<open>statusChanged || incidentChanged\<close> of \<^verbatim>\<open>applyFetchResults\<close>.\<close>

definition exit_condition :: "FetchResult \<Rightarrow> app_state \<Rightarrow> bool" where
  "exit_condition res s \<longleftrightarrow>
     fst (detect_changes res (prevStatus s)) \<or> hasUnresolvedIncidents s \<noteq> hasIncidents res"

text \<open>
  What the foreground copies out of the slot during one iteration of the loop, if
  anything; and over a run of iterations with no publication in between.
\<close>

definition taken_by :: "loop_env \<Rightarrow> app_state \<Rightarrow> FetchResult option" where
  "taken_by env s =
     (let s0 = touch_block env s
      in if newDataReady s0 then map_option fst (take_result (consumeLock env) s0) else None)"

fun taken :: "loop_env list \<Rightarrow> app_state \<Rightarrow> FetchResult option list" where
  "taken [] s = []"
| "taken (env # envs) s = taken_by env s # taken envs (loop env s)"

text \<open>
  An iteration of the loop told by what its data block copies out of the slot: nothing,
  and the block leaves the state as it is; or \<open>res\<close>, and the flag is cleared and the rest
  of \<^verbatim>\<open>applyFetchResults\<close> runs on \<open>res\<close>.
\<close>

definition iteration :: "FetchResult option \<Rightarrow> loop_env \<Rightarrow> app_state \<Rightarrow> app_state" where
  "iteration tk env s =
     animate_block env (idle_block env
       (case tk of
          None \<Rightarrow> touch_block env s
        | Some res \<Rightarrow> apply_result (t_stop env) res ((touch_block env s)\<lparr>newDataReady := False\<rparr>)))"

text \<open>The three channels of a packed RGB565 colour, as the fade extracts them.\<close>

definition red565 :: "16 word \<Rightarrow> 16 word" where
  "red565 c = drop_bit 11 c AND 0x1F"

definition green565 :: "16 word \<Rightarrow> 16 word" where
  "green565 c = drop_bit 5 c AND 0x3F"

definition blue565 :: "16 word \<Rightarrow> 16 word" where
  "blue565 c = c AND 0x1F"

text \<open>The colour a cell gets in a tick, from its column after the update and its old colour.\<close>

definition next_color :: "frame_env \<Rightarrow> nat \<Rightarrow> MatrixColumn \<Rightarrow> nat \<Rightarrow> 16 word \<Rightarrow> 16 word" where
  "next_color env sev col row c =
     (if in_trail col row then
        (if distFromHead col row = 0 then 0xFFFF
         else trail565 env sev (distFromHead col row) (length_col col))
      else fade565 c)"

text \<open>A column over a run of ticks; \<open>rnd n\<close> holds what \<^verbatim>\<open>random\<close> returns in tick \<open>n\<close>.\<close>

fun column_ticks :: "int \<Rightarrow> (nat \<Rightarrow> column_random) \<Rightarrow> nat \<Rightarrow> MatrixColumn \<Rightarrow> MatrixColumn" where
  "column_ticks h rnd 0 col = col"
| "column_ticks h rnd (Suc n) col = update_column h (rnd n) (column_ticks h rnd n col)"

subsection \<open>Concrete inputs\<close>

text \<open>Feeds, and what the collaborators return in a cycle of the fetch task.\<close>

definition ex_entry :: "string \<Rightarrow> string \<Rightarrow> bool \<Rightarrow> feed_entry" where
  "ex_entry n st h = \<lparr>comp_name = n, comp_status = st, only_show_if_degraded = h\<rparr>"

definition ex_feed_ok :: "feed_entry list" where
  "ex_feed_ok = [ex_entry ''Git Operations'' ''operational'' False]"

definition ex_feed_major :: "feed_entry list" where
  "ex_feed_major =
     [ex_entry ''Git Operations'' ''operational'' False,
      ex_entry ''Visit www.githubstatus.com'' ''operational'' False,
      ex_entry ''Hidden'' ''degraded_performance'' True,
      ex_entry ''Actions'' ''major_outage'' False,
      ex_entry ''Pages'' ''partial_outage'' False]"

definition ex_feed_one_major :: "feed_entry list" where
  "ex_feed_one_major = [ex_entry ''Git Operations'' ''major_outage'' False]"

definition ex_feed_maintenance :: "feed_entry list" where
  "ex_feed_maintenance = [ex_entry ''Git Operations'' ''under_maintenance'' False]"

definition ex_feed_long :: "feed_entry list" where
  "ex_feed_long = [ex_entry ''Git Operations'' ''a_status_of_more_than_31_characters'' False]"

definition ex_env :: "feed_entry list \<Rightarrow> nat \<Rightarrow> fetch_env" where
  "ex_env comps n = \<lparr>wifiConnected = True, httpCode = 200, payload = Some comps,
     localTime = Some (12, 34, 56), incidentsHttpCode = 200, incidentsPayload = Some n,
     publishLock = True\<rparr>"

definition ex_env_offline :: fetch_env where
  "ex_env_offline = (ex_env [] 0)\<lparr>wifiConnected := False\<rparr>"

definition ex_env_http :: "int \<Rightarrow> fetch_env" where
  "ex_env_http code = (ex_env [] 0)\<lparr>httpCode := code, payload := None\<rparr>"

text \<open>
  States: the screensaver runs on the 1280 by 720 display, every entry of the
  previous-status table is \<open>operational\<close>, the slot is as at start-up.
\<close>

definition ex_prev :: "string list" where
  "ex_prev = replicate MAX_COMPONENTS ''operational''"

definition ex_column :: MatrixColumn where
  "ex_column = \<lparr>headY = 0, speed = 14, length_col = 8, active = True, spawnDelay = 0\<rparr>"

definition ex_state :: app_state where
  "ex_state = \<lparr>screenW = 1280, screenH = 720, screensaverActive = True,
     allOperational_g = True, hasUnresolvedIncidents = False, matrixSeverity = 0,
     cachedStatusText = ''Updated: 12:00:00'', prevStatus = ex_prev,
     fetchResult = zeroResult, newDataReady = False, lastTouchTime = 0, lastFrameTime = 0,
     colSprite = True, matrixCols = replicate MATRIX_MAX_COLS ex_column,
     matrixGlyphIdx = replicate MATRIX_MAX_COLS (replicate MATRIX_ROWS_MAX 0),
     matrixColors = replicate MATRIX_MAX_COLS (replicate MATRIX_ROWS_MAX 0),
     ui_log = []\<rparr>"

text \<open>The table after a poll of ten components, none of them operational.\<close>

definition ex_state_fewer :: app_state where
  "ex_state_fewer = ex_state\<lparr>prevStatus := ''major_outage'' # replicate 9 ''partial_outage''\<rparr>"

text \<open>New data in the slot: a changed component, nothing changed, only the incidents flag.\<close>

definition ex_state_changed :: app_state where
  "ex_state_changed =
     ex_state\<lparr>fetchResult := build_result ex_prev (ex_env ex_feed_major 0), newDataReady := True\<rparr>"

definition ex_state_same :: app_state where
  "ex_state_same =
     ex_state\<lparr>fetchResult := build_result ex_prev (ex_env ex_feed_ok 0), newDataReady := True\<rparr>"

definition ex_state_incident :: app_state where
  "ex_state_incident =
     ex_state\<lparr>fetchResult := build_result ex_prev (ex_env ex_feed_ok 1), newDataReady := True\<rparr>"

text \<open>A column about to leave the screen and a retired one; a cell that still glows.\<close>

definition ex_state_cols :: app_state where
  "ex_state_cols = ex_state\<lparr>matrixCols := (matrixCols ex_state)
     [0 := \<lparr>headY = 1000, speed = 14, length_col = 8, active = True, spawnDelay = 0\<rparr>,
      1 := \<lparr>headY = 1000, speed = 14, length_col = 8, active = False, spawnDelay = 0\<rparr>]\<rparr>"

definition ex_state_fading :: app_state where
  "ex_state_fading = ex_state\<lparr>matrixColors := (matrixColors ex_state)
     [0 := (matrixColors ex_state ! 0)[20 := 0x07E0]]\<rparr>"

text \<open>What the collaborators return in a frame and in an iteration of the loop.\<close>

definition ex_frame_env :: frame_env where
  "ex_frame_env = \<lparr>col_rnd = (\<lambda>i. \<lparr>rnd_head = 30, rnd_speed = 14, rnd_length = 8, rnd_delay = 5\<rparr>),
     cell_rnd = (\<lambda>i row. \<lparr>rnd_flicker4 = 1, rnd_flicker8 = 1, rnd_glyph = 0\<rparr>),
     trail565 = (\<lambda>sev d len. 0x07E0)\<rparr>"

definition ex_loop_env :: "bool \<Rightarrow> loop_env" where
  "ex_loop_env lockOk = \<lparr>touchCount = 0, screenAsleep = False, consumeLock = lockOk,
     t_touch = 1000, t_stop = 1001, t_idle = 1002, t_start = 1003, t_frame = 1004, t_drawn = 1005,
     init_rnd = col_rnd ex_frame_env, frame = ex_frame_env\<rparr>"

text \<open>
  Two polls of the same feed; the iteration of the loop between them does not obtain the
  mutex, so the first result is still in the slot when the second is published.
\<close>

definition ex_state_polled :: app_state where
  "ex_state_polled = loop (ex_loop_env False) (fetchTaskFunc (ex_env ex_feed_major 0) ex_state)"

definition ex_state_polled_again :: app_state where
  "ex_state_polled_again = fetchTaskFunc (ex_env ex_feed_major 0) ex_state_polled"

section \<open>Properties\<close>

subsection \<open>The component loop of the fetch task\<close>

lemma take_eq_short: "length k < n \<Longrightarrow> (take n s = k) = (s = k)"
proof
  assume a: "length k < n" "take n s = k"
  then have "length (take n s) < n" by simp
  then have "length s < n" by (simp add: min_def split: if_splits)
  with a show "s = k" by simp
next
  assume "length k < n" "s = k" then show "take n s = k" by simp
qed

lemma take_eq_short2: "length k < n \<Longrightarrow> (k = take n s) = (k = s)"
  using take_eq_short [of k n s] by auto

lemma classify_worst:
  "worstSeverity (classify st res) =
     (if st = ''major_outage'' then 2
      else if st = ''degraded_performance'' \<or> st = ''partial_outage'' then max 1 (worstSeverity res)
      else worstSeverity res)"
  by (simp add: classify_def Let_def max_def)

lemma classify_allOperational:
  "allOperational (classify st res) = (allOperational res \<and> st = ''operational'')"
  by (auto simp add: classify_def Let_def)

lemma classify_frame:
  "components (classify st res) = components res"
  "statusChanged (classify st res) = statusChanged res"
  "valid (classify st res) = valid res"
  "hasIncidents (classify st res) = hasIncidents res"
  "componentCount (classify st res) = componentCount res"
  "statusBarText (classify st res) = statusBarText res"
  by (simp_all add: classify_def Let_def)

lemma sev_of_snoc:
  "sev_of (sts @ [strncpy 31 st]) =
     (if st = ''major_outage'' then 2
      else if st = ''degraded_performance'' \<or> st = ''partial_outage'' then max 1 (sev_of sts)
      else sev_of sts)"
  by (simp add: sev_of_def strncpy_def take_eq_short2)

lemma take_Suc_update:
  "idx < length cs \<Longrightarrow> take (Suc idx) (cs[idx := c]) = take idx cs @ [c]"
  by (simp add: take_Suc_conv_app_nth)

lemma strncpy_operational:
  "(strncpy 31 st = ''operational'') = (st = ''operational'')"
  by (simp add: strncpy_def take_eq_short)

lemma loop_inv_step:
  assumes inv: "loop_inv idx res" and lt: "idx < MAX_COMPONENTS"
    and c: "components res2 = (components res)[idx := \<lparr>name = nm, status = strncpy 31 st\<rparr>]"
    and w: "worstSeverity res2 = worstSeverity res"
    and a: "allOperational res2 = allOperational res"
  shows "loop_inv (idx + 1) (classify st res2)"
proof -
  from inv lt have len: "idx < length (components res)"
    by (simp add: loop_inv_def)
  have sts: "map status (take (idx + 1) (components res2))
             = map status (take idx (components res)) @ [strncpy 31 st]"
    using len by (simp add: c take_Suc_update)
  have "worstSeverity (classify st res2) = sev_of (map status (take (idx + 1) (components res2)))"
    using inv by (simp only: sts sev_of_snoc classify_worst w loop_inv_def)
  moreover have "allOperational (classify st res2) \<longleftrightarrow>
      (\<forall>s \<in> set (map status (take (idx + 1) (components res2))). s = ''operational'')"
    using inv unfolding sts classify_allOperational a loop_inv_def
    by (auto simp add: strncpy_operational)
  moreover have "length (components (classify st res2)) = MAX_COMPONENTS"
    using inv by (simp add: classify_frame c loop_inv_def)
  ultimately show ?thesis
    using lt by (simp add: loop_inv_def classify_frame)
qed

lemma component_loop_inv:
  "loop_inv idx res \<Longrightarrow> component_loop prev comps idx res = (idx', res') \<Longrightarrow> loop_inv idx' res'"
proof (induction comps arbitrary: idx res)
  case Nil
  then show ?case by simp
next
  case (Cons entry rest)
  show ?case
  proof (cases "idx \<ge> MAX_COMPONENTS")
    case True
    with Cons.prems show ?thesis by simp
  next
    case False
    then have lt: "idx < MAX_COMPONENTS" by simp
    show ?thesis
    proof (cases "only_show_if_degraded entry \<or> strncmp_eq (comp_name entry) ''Visit'' 5")
      case True
      with Cons.prems lt have "component_loop prev rest idx res = (idx', res')"
        by (auto split: if_splits)
      with Cons.IH Cons.prems(1) show ?thesis by blast
    next
      case skip: False
      let ?res1 = "res\<lparr>components := (components res)
                      [idx := \<lparr>name = strncpy 47 (comp_name entry),
                                status = strncpy 31 (comp_status entry)\<rparr>]\<rparr>"
      let ?res2 = "if prev ! idx \<noteq> comp_status entry then ?res1\<lparr>statusChanged := True\<rparr> else ?res1"
      have "loop_inv (idx + 1) (classify (comp_status entry) ?res2)"
        by (rule loop_inv_step [OF Cons.prems(1) lt, where nm = "strncpy 47 (comp_name entry)"]) simp_all
      moreover have "component_loop prev rest (idx + 1) (classify (comp_status entry) ?res2) = (idx', res')"
        using Cons.prems(2) skip lt by (simp add: Let_def)
      ultimately show ?thesis by (rule Cons.IH)
    qed
  qed
qed

lemma component_loop_stored:
  "length (components res) = MAX_COMPONENTS \<Longrightarrow> idx \<le> MAX_COMPONENTS \<Longrightarrow>
   component_loop prev comps idx res = (idx', res') \<Longrightarrow>
     idx' = idx + length (take (MAX_COMPONENTS - idx) (filter keep_entry comps)) \<and>
     take idx' (components res') =
       take idx (components res) @ map store_entry (take (MAX_COMPONENTS - idx) (filter keep_entry comps)) \<and>
     (statusChanged res' \<longleftrightarrow> statusChanged res \<or>
        (\<exists>k < length (take (MAX_COMPONENTS - idx) (filter keep_entry comps)).
           prev ! (idx + k) \<noteq> comp_status (take (MAX_COMPONENTS - idx) (filter keep_entry comps) ! k))) \<and>
     valid res' = valid res \<and> hasIncidents res' = hasIncidents res \<and>
     statusBarText res' = statusBarText res \<and> length (components res') = MAX_COMPONENTS"
proof (induction comps arbitrary: idx res)
  case Nil
  then show ?case by simp
next
  case (Cons entry rest)
  show ?case
  proof (cases "idx \<ge> MAX_COMPONENTS")
    case True
    with Cons.prems show ?thesis by simp
  next
    case False
    then have lt: "idx < MAX_COMPONENTS" by simp
    show ?thesis
    proof (cases "keep_entry entry")
      case False
      with Cons.prems lt have "component_loop prev rest idx res = (idx', res')"
        by (auto simp add: keep_entry_def split: if_splits)
      note ih = Cons.IH [OF Cons.prems(1) Cons.prems(2) this]
      have eq: "filter keep_entry (entry # rest) = filter keep_entry rest"
        using False by simp
      show ?thesis unfolding eq by (rule ih)
    next
      case True
      let ?res1 = "res\<lparr>components := (components res) [idx := store_entry entry]\<rparr>"
      let ?res2 = "if prev ! idx \<noteq> comp_status entry then ?res1\<lparr>statusChanged := True\<rparr> else ?res1"
      let ?res3 = "classify (comp_status entry) ?res2"
      let ?fs = "take (MAX_COMPONENTS - (idx + 1)) (filter keep_entry rest)"
      have fs: "take (MAX_COMPONENTS - idx) (filter keep_entry (entry # rest)) = entry # ?fs"
        using True lt by (simp add: take_Cons')
      have run: "component_loop prev rest (idx + 1) ?res3 = (idx', res')"
        using Cons.prems(3) True lt
        by (auto simp add: Let_def keep_entry_def store_entry_def split: if_splits)
      have len3: "length (components ?res3) = MAX_COMPONENTS"
        using Cons.prems(1) by (simp add: classify_frame)
      from lt have le: "idx + 1 \<le> MAX_COMPONENTS" by simp
      note ih = Cons.IH [OF len3 le run]
      have tk: "take (idx + 1) (components ?res3) = take idx (components res) @ [store_entry entry]"
        using Cons.prems(1) lt by (simp add: classify_frame take_Suc_update)
      have sc: "statusChanged ?res3 \<longleftrightarrow> statusChanged res \<or> prev ! idx \<noteq> comp_status entry"
        by (simp add: classify_frame)
      have ex: "(\<exists>k < length (entry # ?fs). prev ! (idx + k) \<noteq> comp_status ((entry # ?fs) ! k))
          \<longleftrightarrow> prev ! idx \<noteq> comp_status entry \<or>
              (\<exists>k < length ?fs. prev ! (idx + 1 + k) \<noteq> comp_status (?fs ! k))"
        by (auto simp add: less_Suc_eq_0_disj)
      have fr: "valid ?res3 = valid res" "hasIncidents ?res3 = hasIncidents res"
          "statusBarText ?res3 = statusBarText res"
        by (simp_all add: classify_frame)
      from ih have g1: "idx' = idx + length (entry # ?fs)" by simp
      from ih have "take idx' (components res') =
          take (idx + 1) (components ?res3) @ map store_entry ?fs"
        by blast
      then have g2: "take idx' (components res') =
          take idx (components res) @ map store_entry (entry # ?fs)"
        unfolding tk by simp
      from ih have g3: "statusChanged res' \<longleftrightarrow> statusChanged res \<or>
          (\<exists>k < length (entry # ?fs). prev ! (idx + k) \<noteq> comp_status ((entry # ?fs) ! k))"
        unfolding ex sc by blast
      from ih have g4: "valid res' = valid res \<and> hasIncidents res' = hasIncidents res \<and>
          statusBarText res' = statusBarText res \<and> length (components res') = MAX_COMPONENTS"
        unfolding fr by blast
      show ?thesis
        unfolding fs using g1 g2 g3 g4 by blast
    qed
  qed
qed

lemma fetch_incidents_frame:
  "valid (fetch_incidents env res) = valid res"
  "worstSeverity (fetch_incidents env res) = worstSeverity res"
  "allOperational (fetch_incidents env res) = allOperational res"
  "components (fetch_incidents env res) = components res"
  "componentCount (fetch_incidents env res) = componentCount res"
  "statusChanged (fetch_incidents env res) = statusChanged res"
  "statusBarText (fetch_incidents env res) = statusBarText res"
  by (simp_all add: fetch_incidents_def split: option.splits)

lemma loop_inv_init: "loop_inv 0 initResult"
  by (simp add: loop_inv_def initResult_def zeroResult_def sev_of_def)

lemma build_result_unfold:
  "build_result prev env =
     (let res2 = fetch_incidents env (fetch_components prev env initResult)
      in if hasIncidents res2 \<and> worstSeverity res2 < 1 then res2\<lparr>worstSeverity := 1\<rparr> else res2)"
  by (simp add: build_result_def Let_def)

lemma fetch_components_valid:
  "valid (fetch_components prev env initResult) \<longleftrightarrow>
     httpCode env = HTTP_CODE_OK \<and> payload env \<noteq> None"
  by (auto simp add: fetch_components_def initResult_def Let_def
        split: option.splits prod.splits)

lemma build_result_valid:
  "valid (build_result prev env) \<longleftrightarrow> httpCode env = HTTP_CODE_OK \<and> payload env \<noteq> None"
  by (simp add: build_result_unfold Let_def fetch_incidents_frame fetch_components_valid)

lemma fetch_components_ok:
  fixes prev :: "string list" and env :: fetch_env
  assumes ok: "httpCode env = HTTP_CODE_OK" and pl: "payload env = Some comps"
  defines "res \<equiv> fetch_components prev env initResult"
  shows "componentCount res = length (filtered comps)"
    and "take (componentCount res) (components res) = map store_entry (filtered comps)"
    and "statusChanged res \<longleftrightarrow>
           (\<exists>k < length (filtered comps). prev ! k \<noteq> comp_status (filtered comps ! k))"
    and "worstSeverity res = sev_of (stored_statuses res)"
    and "allOperational res \<longleftrightarrow> (\<forall>st \<in> set (stored_statuses res). st = ''operational'')"
    and "hasIncidents res = False"
    and "length (components res) = MAX_COMPONENTS"
proof -
  obtain idx res1 where run: "component_loop prev comps 0 initResult = (idx, res1)"
    by (cases "component_loop prev comps 0 initResult")
  have len0: "length (components initResult) = MAX_COMPONENTS"
    by (simp add: initResult_def zeroResult_def)
  note st = component_loop_stored [OF len0 le0 run]
  note inv = component_loop_inv [OF loop_inv_init run]
  have flds: "componentCount res = idx" "components res = components res1"
    "statusChanged res = statusChanged res1" "worstSeverity res = worstSeverity res1"
    "allOperational res = allOperational res1" "hasIncidents res = hasIncidents res1"
    using ok pl run
    by (simp_all add: res_def fetch_components_def Let_def split: option.splits prod.splits)
  from st have "idx = 0 + length (take (MAX_COMPONENTS - 0) (filter keep_entry comps))"
    by blast
  then have idx: "idx = length (filtered comps)"
    by (simp add: filtered_def)
  from st have "take idx (components res1) =
      take 0 (components initResult) @ map store_entry (take (MAX_COMPONENTS - 0) (filter keep_entry comps))"
    by blast
  then have tk: "take idx (components res1) = map store_entry (filtered comps)"
    by (simp add: filtered_def)
  from st have "statusChanged res1 \<longleftrightarrow> statusChanged initResult \<or>
        (\<exists>k < length (take (MAX_COMPONENTS - 0) (filter keep_entry comps)).
           prev ! (0 + k) \<noteq> comp_status (take (MAX_COMPONENTS - 0) (filter keep_entry comps) ! k))"
    by blast
  then have sc: "statusChanged res1 \<longleftrightarrow>
      (\<exists>k < length (filtered comps). prev ! k \<noteq> comp_status (filtered comps ! k))"
    by (simp add: filtered_def initResult_def zeroResult_def)
  from st have rest: "hasIncidents res1 = hasIncidents initResult"
    "length (components res1) = MAX_COMPONENTS"
    by blast+
  show "componentCount res = length (filtered comps)"
    by (simp add: flds idx)
  show "take (componentCount res) (components res) = map store_entry (filtered comps)"
    by (simp only: flds tk)
  show "statusChanged res \<longleftrightarrow>
           (\<exists>k < length (filtered comps). prev ! k \<noteq> comp_status (filtered comps ! k))"
    by (simp only: flds sc)
  from inv show "worstSeverity res = sev_of (stored_statuses res)"
    by (simp add: flds loop_inv_def stored_statuses_def)
  from inv show "allOperational res \<longleftrightarrow> (\<forall>st \<in> set (stored_statuses res). st = ''operational'')"
    by (simp add: flds loop_inv_def stored_statuses_def)
  show "hasIncidents res = False"
    by (simp add: flds rest initResult_def zeroResult_def)
  show "length (components res) = MAX_COMPONENTS"
    by (simp add: flds rest)
qed

lemma build_result_worst:
  "worstSeverity (build_result prev env) =
     (let res2 = fetch_incidents env (fetch_components prev env initResult)
      in if hasIncidents res2 \<and> worstSeverity res2 < 1 then 1 else worstSeverity res2)"
  by (simp add: build_result_unfold Let_def)

lemma build_result_frame:
  "allOperational (build_result prev env) = allOperational (fetch_components prev env initResult)"
  "components (build_result prev env) = components (fetch_components prev env initResult)"
  "componentCount (build_result prev env) = componentCount (fetch_components prev env initResult)"
  "statusChanged (build_result prev env) = statusChanged (fetch_components prev env initResult)"
  "statusBarText (build_result prev env) = statusBarText (fetch_components prev env initResult)"
  "hasIncidents (build_result prev env) = hasIncidents (fetch_incidents env (fetch_components prev env initResult))"
  by (simp_all add: build_result_unfold Let_def fetch_incidents_frame)

lemma stored_statuses_build:
  "stored_statuses (build_result prev env) = stored_statuses (fetch_components prev env initResult)"
  by (simp add: stored_statuses_def build_result_frame)

subsection \<open>Severity of a valid result\<close>

text \<open>
  Claim C3. For every valid fetch result, \<open>worstSeverity\<close> is 2 if the status of some
  stored (filtered) component is \<open>major_outage\<close>; otherwise 1 if the status of some
  stored component is \<open>degraded_performance\<close> or \<open>partial_outage\<close>, or the
  unresolved-incidents flag is set; otherwise 0.
\<close>

theorem worstSeverity_classification:
  assumes "valid (build_result prev env)"
  shows "worstSeverity (build_result prev env) =
     (if ''major_outage'' \<in> set (stored_statuses (build_result prev env)) then 2
      else if ''degraded_performance'' \<in> set (stored_statuses (build_result prev env))
            \<or> ''partial_outage'' \<in> set (stored_statuses (build_result prev env))
            \<or> hasIncidents (build_result prev env) then 1
      else 0)"
proof -
  from assms obtain comps where ok: "httpCode env = HTTP_CODE_OK" and pl: "payload env = Some comps"
    by (auto simp add: build_result_valid)
  have w: "worstSeverity (fetch_components prev env initResult)
           = sev_of (stored_statuses (build_result prev env))"
    using fetch_components_ok(4) [OF ok pl] by (simp add: stored_statuses_build)
  show ?thesis
    unfolding build_result_worst build_result_frame(6)
    by (simp add: Let_def fetch_incidents_frame w sev_of_def)
qed

theorem worstSeverity_classification_witness:
  "valid (build_result ex_prev (ex_env ex_feed_major 0)) \<and>
   stored_statuses (build_result ex_prev (ex_env ex_feed_major 0))
     = [''operational'', ''major_outage'', ''partial_outage''] \<and>
   worstSeverity (build_result ex_prev (ex_env ex_feed_major 0)) = 2"
proof -
  have v: "valid (build_result ex_prev (ex_env ex_feed_major 0))"
    by code_simp
  have s: "stored_statuses (build_result ex_prev (ex_env ex_feed_major 0))
     = [''operational'', ''major_outage'', ''partial_outage'']"
    by code_simp
  show ?thesis
    using v s worstSeverity_classification [OF v] by simp
qed

subsection \<open>The all-operational flag\<close>

text \<open>
  Claim C4 as stated, "for every valid fetch result, \<open>allOperational\<close> is true if and
  only if \<open>worstSeverity\<close> is 0", fails in one direction for a status outside the four
  known values (here \<open>under_maintenance\<close>): the flag is cleared and the severity stays 0.
\<close>

theorem allOperational_counterexample:
  "valid (build_result ex_prev (ex_env ex_feed_maintenance 0)) \<and>
   \<not> allOperational (build_result ex_prev (ex_env ex_feed_maintenance 0)) \<and>
   worstSeverity (build_result ex_prev (ex_env ex_feed_maintenance 0)) = 0"
  by code_simp

text \<open>It fails in the other direction when only the incidents feed reports something.\<close>

lemma allOperational_incidents_example:
  "valid (build_result ex_prev (ex_env [ex_entry ''Pages'' ''operational'' False] 1)) \<and>
   allOperational (build_result ex_prev (ex_env [ex_entry ''Pages'' ''operational'' False] 1)) \<and>
   worstSeverity (build_result ex_prev (ex_env [ex_entry ''Pages'' ''operational'' False] 1)) = 1"
  by code_simp

lemma sev_of_zero:
  "sev_of sts = 0 \<longleftrightarrow>
     ''major_outage'' \<notin> set sts \<and> ''degraded_performance'' \<notin> set sts \<and> ''partial_outage'' \<notin> set sts"
  by (simp add: sev_of_def)

lemma four_values:
  assumes "\<forall>x \<in> S. x = a \<or> x = b \<or> x = c \<or> x = d"
    and "a \<noteq> b" "a \<noteq> c" "a \<noteq> d"
  shows "(d \<notin> S \<and> b \<notin> S \<and> c \<notin> S) \<longleftrightarrow> (\<forall>x \<in> S. x = a)"
  using assms by auto

lemma sev_of_zero_known:
  assumes "\<forall>st \<in> set sts. known_status st"
  shows "sev_of sts = 0 \<longleftrightarrow> (\<forall>st \<in> set sts. st = ''operational'')"
  unfolding sev_of_zero
  by (rule four_values) (use assms in \<open>simp_all add: known_status_def\<close>)

text \<open>
  Claim C4, amended. For every valid fetch result, \<open>allOperational\<close> is true if and only
  if the status of every stored (filtered) component is \<open>operational\<close>; and when the
  unresolved-incidents flag is false and every stored status is one of \<open>operational\<close>,
  \<open>degraded_performance\<close>, \<open>partial_outage\<close>, \<open>major_outage\<close>, then \<open>allOperational\<close>
  is true if and only if \<open>worstSeverity\<close> is 0.
\<close>

theorem allOperational_iff:
  assumes "valid (build_result prev env)"
  shows "(allOperational (build_result prev env) \<longleftrightarrow>
           (\<forall>st \<in> set (stored_statuses (build_result prev env)). st = ''operational'')) \<and>
         (\<not> hasIncidents (build_result prev env) \<and>
          (\<forall>st \<in> set (stored_statuses (build_result prev env)). known_status st) \<longrightarrow>
            (allOperational (build_result prev env) \<longleftrightarrow> worstSeverity (build_result prev env) = 0))"
proof -
  from assms obtain comps where ok: "httpCode env = HTTP_CODE_OK" and pl: "payload env = Some comps"
    by (auto simp add: build_result_valid)
  have a: "allOperational (build_result prev env) \<longleftrightarrow>
           (\<forall>st \<in> set (stored_statuses (build_result prev env)). st = ''operational'')"
    using fetch_components_ok(5) [OF ok pl] by (simp add: stored_statuses_build build_result_frame)
  have w: "worstSeverity (fetch_components prev env initResult)
           = sev_of (stored_statuses (build_result prev env))"
    using fetch_components_ok(4) [OF ok pl] by (simp add: stored_statuses_build)
  have "worstSeverity (build_result prev env) = sev_of (stored_statuses (build_result prev env))"
    if "\<not> hasIncidents (build_result prev env)"
    using that unfolding build_result_worst build_result_frame(6)
    by (simp add: Let_def fetch_incidents_frame w)
  with a show ?thesis
    by (simp add: sev_of_zero_known)
qed

theorem allOperational_iff_witness:
  "valid (build_result ex_prev (ex_env ex_feed_major 0)) \<and>
   \<not> hasIncidents (build_result ex_prev (ex_env ex_feed_major 0)) \<and>
   stored_statuses (build_result ex_prev (ex_env ex_feed_major 0))
     = [''operational'', ''major_outage'', ''partial_outage''] \<and>
   \<not> allOperational (build_result ex_prev (ex_env ex_feed_major 0)) \<and>
   worstSeverity (build_result ex_prev (ex_env ex_feed_major 0)) \<noteq> 0"
proof -
  let ?R = "build_result ex_prev (ex_env ex_feed_major 0)"
  have v: "valid ?R"
    by code_simp
  have h: "\<not> hasIncidents ?R"
    by code_simp
  have s: "stored_statuses ?R = [''operational'', ''major_outage'', ''partial_outage'']"
    by code_simp
  have k: "\<forall>st \<in> set (stored_statuses ?R). known_status st"
    unfolding s by (simp add: known_status_def)
  have n: "\<not> (\<forall>st \<in> set (stored_statuses ?R). st = ''operational'')"
    unfolding s by simp
  note t = allOperational_iff [OF v]
  from n have na: "\<not> allOperational ?R"
    unfolding t [THEN conjunct1] .
  have e: "allOperational ?R \<longleftrightarrow> worstSeverity ?R = 0"
    by (rule t [THEN conjunct2, THEN mp, OF conjI [OF h k]])
  from na have w: "worstSeverity ?R \<noteq> 0"
    unfolding e .
  from v h s na w show ?thesis
    by (intro conjI)
qed

subsection \<open>Change detection when a result is applied\<close>

lemma nth_update_total:
  "p[n := v] ! j = (if j = n \<and> n < length p then v else p ! j)"
  by (cases "n < length p") (auto simp add: nth_list_update list_update_beyond)

lemma detect_fold:
  "fst (fold (detect_step res) [0..<n] (False, prev))
     = (\<exists>i<n. prev ! i \<noteq> status (components res ! i)) \<and>
   length (snd (fold (detect_step res) [0..<n] (False, prev))) = length prev \<and>
   (\<forall>j. snd (fold (detect_step res) [0..<n] (False, prev)) ! j =
      (if j < n \<and> j < length prev \<and> prev ! j \<noteq> status (components res ! j)
       then strncpy 31 (status (components res ! j)) else prev ! j))"
proof (induction n)
  case 0
  show ?case by simp
next
  case (Suc n)
  obtain ch p where acc: "fold (detect_step res) [0..<n] (False, prev) = (ch, p)"
    by (cases "fold (detect_step res) [0..<n] (False, prev)")
  from Suc.IH have ch: "ch = (\<exists>i<n. prev ! i \<noteq> status (components res ! i))"
    and len: "length p = length prev"
    and nth: "\<And>j. p ! j = (if j < n \<and> j < length prev \<and> prev ! j \<noteq> status (components res ! j)
       then strncpy 31 (status (components res ! j)) else prev ! j)"
    by (simp_all add: acc)
  have pn: "p ! n = prev ! n"
    by (simp add: nth)
  have step: "fold (detect_step res) [0..<Suc n] (False, prev) = detect_step res n (ch, p)"
    by (simp add: acc)
  show ?case
  proof (cases "prev ! n \<noteq> status (components res ! n)")
    case True
    then have r: "detect_step res n (ch, p) = (True, p[n := strncpy 31 (status (components res ! n))])"
      by (simp add: detect_step_def pn)
    show ?thesis
      unfolding step r using True
      by (auto simp add: len nth nth_update_total less_Suc_eq)
  next
    case False
    then have r: "detect_step res n (ch, p) = (ch, p)"
      by (simp add: detect_step_def pn)
    show ?thesis
      unfolding step r using False
      by (auto simp add: ch len nth less_Suc_eq)
  qed
qed

lemma detect_changes_flag:
  "fst (detect_changes res prev) \<longleftrightarrow>
     (\<exists>i<componentCount res. prev ! i \<noteq> status (components res ! i))"
  unfolding detect_changes_def using detect_fold [of res "componentCount res" prev] by blast

lemma detect_changes_length:
  "length (snd (detect_changes res prev)) = length prev"
  unfolding detect_changes_def using detect_fold [of res "componentCount res" prev] by blast

lemma detect_changes_nth:
  "snd (detect_changes res prev) ! j =
      (if j < componentCount res \<and> j < length prev \<and> prev ! j \<noteq> status (components res ! j)
       then strncpy 31 (status (components res ! j)) else prev ! j)"
  unfolding detect_changes_def using detect_fold [of res "componentCount res" prev] by blast

lemma wf_result_status:
  "wf_result res \<Longrightarrow> j < componentCount res \<Longrightarrow> strncpy 31 (status (components res ! j)) = status (components res ! j)"
  by (simp add: wf_result_def strncpy_def)

lemma detect_changes_stored:
  assumes "wf_result res" "length prev = MAX_COMPONENTS" "j < componentCount res"
  shows "snd (detect_changes res prev) ! j = status (components res ! j)"
proof -
  from assms have "j < length prev" by (simp add: wf_result_def)
  with assms show ?thesis
    by (simp add: detect_changes_nth wf_result_status)
qed

lemma detect_changes_beyond:
  "componentCount res \<le> j \<Longrightarrow> snd (detect_changes res prev) ! j = prev ! j"
  by (simp add: detect_changes_nth)

lemma updateStatusBanner_fields:
  "screensaverActive (updateStatusBanner s) = screensaverActive s"
  "prevStatus (updateStatusBanner s) = prevStatus s"
  "allOperational_g (updateStatusBanner s) = allOperational_g s"
  "hasUnresolvedIncidents (updateStatusBanner s) = hasUnresolvedIncidents s"
  "matrixSeverity (updateStatusBanner s) = matrixSeverity s"
  "fetchResult (updateStatusBanner s) = fetchResult s"
  "newDataReady (updateStatusBanner s) = newDataReady s"
  "cachedStatusText (updateStatusBanner s) = cachedStatusText s"
  "lastTouchTime (updateStatusBanner s) = lastTouchTime s"
  "lastFrameTime (updateStatusBanner s) = lastFrameTime s"
  "colSprite (updateStatusBanner s) = colSprite s"
  "matrixCols (updateStatusBanner s) = matrixCols s"
  "matrixGlyphIdx (updateStatusBanner s) = matrixGlyphIdx s"
  "matrixColors (updateStatusBanner s) = matrixColors s"
  "screenW (updateStatusBanner s) = screenW s"
  "screenH (updateStatusBanner s) = screenH s"
  by (simp_all add: updateStatusBanner_def ui_def)

lemma updateStatusBanner_log:
  "\<exists>calls. ui_log (updateStatusBanner s) = ui_log s @ calls \<and> count_list calls ClearScreen = 0"
  by (simp add: updateStatusBanner_def ui_def)

lemma stop_fields:
  "screensaverActive (matrixStopScreensaver now s) = False"
  "prevStatus (matrixStopScreensaver now s) = prevStatus s"
  "allOperational_g (matrixStopScreensaver now s) = allOperational_g s"
  "hasUnresolvedIncidents (matrixStopScreensaver now s) = hasUnresolvedIncidents s"
  "matrixSeverity (matrixStopScreensaver now s) = matrixSeverity s"
  "fetchResult (matrixStopScreensaver now s) = fetchResult s"
  "newDataReady (matrixStopScreensaver now s) = newDataReady s"
  "cachedStatusText (matrixStopScreensaver now s) = cachedStatusText s"
  "lastTouchTime (matrixStopScreensaver now s) = now"
  "lastFrameTime (matrixStopScreensaver now s) = lastFrameTime s"
  "colSprite (matrixStopScreensaver now s) = False"
  by (simp_all add: matrixStopScreensaver_def Let_def ui_def updateStatusBanner_fields)

lemma stop_log:
  "\<exists>calls. ui_log (matrixStopScreensaver now s) = ui_log s @ calls \<and> count_list calls ClearScreen = 1"
proof -
  let ?s2 = "if colSprite s then ui [DeleteSprite] (s\<lparr>screensaverActive := False, colSprite := False\<rparr>)
             else s\<lparr>screensaverActive := False\<rparr>"
  have "\<exists>c2. ui_log ?s2 = ui_log s @ c2 \<and> count_list c2 ClearScreen = 0"
    by (cases "colSprite s") (simp_all add: ui_def)
  then obtain c2 where c2: "ui_log ?s2 = ui_log s @ c2" "count_list c2 ClearScreen = 0"
    by blast
  obtain c3 where c3: "ui_log (updateStatusBanner ?s2) = ui_log ?s2 @ c3" "count_list c3 ClearScreen = 0"
    using updateStatusBanner_log by blast
  have "ui_log (matrixStopScreensaver now s) =
      ui_log s @ (c2 @ c3 @ [SetRightText (cachedStatusText ?s2), SetFont, ClearScreen, DrawAll, DrawGridLines])"
    using c2(1) c3(1)
    by (simp add: matrixStopScreensaver_def Let_def ui_def updateStatusBanner_fields)
  moreover have "count_list (c2 @ c3 @ [SetRightText (cachedStatusText ?s2), SetFont, ClearScreen, DrawAll, DrawGridLines]) ClearScreen = 1"
    using c2(2) c3(2) by simp
  ultimately show ?thesis by blast
qed

lemma ui_fields:
  "screensaverActive (ui calls s) = screensaverActive s"
  "prevStatus (ui calls s) = prevStatus s"
  "allOperational_g (ui calls s) = allOperational_g s"
  "hasUnresolvedIncidents (ui calls s) = hasUnresolvedIncidents s"
  "matrixSeverity (ui calls s) = matrixSeverity s"
  "fetchResult (ui calls s) = fetchResult s"
  "newDataReady (ui calls s) = newDataReady s"
  "cachedStatusText (ui calls s) = cachedStatusText s"
  "lastTouchTime (ui calls s) = lastTouchTime s"
  "lastFrameTime (ui calls s) = lastFrameTime s"
  "colSprite (ui calls s) = colSprite s"
  "matrixCols (ui calls s) = matrixCols s"
  "matrixGlyphIdx (ui calls s) = matrixGlyphIdx s"
  "matrixColors (ui calls s) = matrixColors s"
  "screenW (ui calls s) = screenW s"
  "screenH (ui calls s) = screenH s"
  "ui_log (ui calls s) = ui_log s @ calls"
  by (simp_all add: ui_def)

lemma apply_invalid_fields:
  assumes "\<not> valid res"
  shows "screensaverActive (apply_result now res s) = screensaverActive s"
    and "prevStatus (apply_result now res s) = prevStatus s"
    and "allOperational_g (apply_result now res s) = allOperational_g s"
    and "hasUnresolvedIncidents (apply_result now res s) = hasUnresolvedIncidents s"
    and "matrixSeverity (apply_result now res s) = matrixSeverity s"
    and "cachedStatusText (apply_result now res s) = strncpy 48 (statusBarText res)"
    and "lastTouchTime (apply_result now res s) = lastTouchTime s"
  using assms by (simp_all add: apply_result_def Let_def ui_fields)

lemma apply_valid_fields:
  assumes "valid res"
  shows "prevStatus (apply_result now res s) = snd (detect_changes res (prevStatus s))"
    and "allOperational_g (apply_result now res s) = allOperational res"
    and "hasUnresolvedIncidents (apply_result now res s) = hasIncidents res"
    and "matrixSeverity (apply_result now res s) = worstSeverity res"
    and "screensaverActive (apply_result now res s) \<longleftrightarrow> screensaverActive s \<and> \<not> exit_condition res s"
    and "cachedStatusText (apply_result now res s) = strncpy 48 (statusBarText res)"
    and "lastTouchTime (apply_result now res s) =
           (if screensaverActive s \<and> exit_condition res s then now else lastTouchTime s)"
proof -
  obtain ch prev where dc: "detect_changes res (prevStatus s) = (ch, prev)"
    by (cases "detect_changes res (prevStatus s)")
  show "prevStatus (apply_result now res s) = snd (detect_changes res (prevStatus s))"
    and "allOperational_g (apply_result now res s) = allOperational res"
    and "hasUnresolvedIncidents (apply_result now res s) = hasIncidents res"
    and "matrixSeverity (apply_result now res s) = worstSeverity res"
    and "screensaverActive (apply_result now res s) \<longleftrightarrow> screensaverActive s \<and> \<not> exit_condition res s"
    and "cachedStatusText (apply_result now res s) = strncpy 48 (statusBarText res)"
    and "lastTouchTime (apply_result now res s) =
           (if screensaverActive s \<and> exit_condition res s then now else lastTouchTime s)"
    using assms
    by (auto simp add: apply_result_def Let_def dc ui_fields stop_fields
          updateStatusBanner_fields exit_condition_def)
qed

lemma widget_calls_no_clear:
  "count_list (concat (map (widget_calls res) xs)) ClearScreen = 0"
  by (induction xs) (simp_all add: widget_calls_def Let_def)

lemma apply_log:
  "\<exists>calls. ui_log (apply_result now res s) = ui_log s @ calls \<and>
     count_list calls ClearScreen =
       (if valid res \<and> screensaverActive s \<and> exit_condition res s then 1 else 0)"
proof (cases "valid res")
  case False
  then show ?thesis
    by (simp add: apply_result_def Let_def ui_fields)
next
  case True
  obtain ch prev where dc: "detect_changes res (prevStatus s) = (ch, prev)"
    by (cases "detect_changes res (prevStatus s)")
  let ?s4 = "s\<lparr>cachedStatusText := strncpy 48 (statusBarText res), prevStatus := prev,
               allOperational_g := allOperational res, hasUnresolvedIncidents := hasIncidents res,
               matrixSeverity := worstSeverity res\<rparr>"
  define exit where "exit \<longleftrightarrow> (ch \<or> hasUnresolvedIncidents s \<noteq> hasIncidents res) \<and> screensaverActive s"
  let ?s5 = "if exit then matrixStopScreensaver now ?s4 else ?s4"
  have ex: "exit \<longleftrightarrow> screensaverActive s \<and> exit_condition res s"
    by (auto simp add: exit_condition_def dc exit_def)
  have "\<exists>c5. ui_log ?s5 = ui_log s @ c5 \<and> count_list c5 ClearScreen = (if exit then 1 else 0)"
  proof (cases exit)
    case True
    from stop_log [of now ?s4] obtain c where
      "ui_log (matrixStopScreensaver now ?s4) = ui_log s @ c" "count_list c ClearScreen = 1"
      by auto
    with True show ?thesis by simp
  next
    case False
    then show ?thesis by simp
  qed
  then obtain c5 where c5: "ui_log ?s5 = ui_log s @ c5"
      "count_list c5 ClearScreen = (if exit then 1 else 0)"
    by blast
  have ar: "apply_result now res s =
      (if \<not> screensaverActive ?s5 then
         (let s6 = ui (concat (map (widget_calls res) [0..<componentCount res])) ?s5;
              s7 = updateStatusBanner s6
          in ui [SetRightText (cachedStatusText s7), DrawAll, DrawGridLines] s7)
       else ?s5)"
    using True by (simp add: apply_result_def Let_def dc exit_def)
  show ?thesis
  proof (cases "screensaverActive ?s5")
    case True
    with ar c5 ex \<open>valid res\<close> show ?thesis
      by (auto simp add: stop_fields split: if_splits)
  next
    case False
    let ?s6 = "ui (concat (map (widget_calls res) [0..<componentCount res])) ?s5"
    obtain c7 where c7: "ui_log (updateStatusBanner ?s6) = ui_log ?s6 @ c7"
        "count_list c7 ClearScreen = 0"
      using updateStatusBanner_log by blast
    from False ar have "ui_log (apply_result now res s) =
        ui_log s @ (c5 @ concat (map (widget_calls res) [0..<componentCount res]) @ c7
          @ [SetRightText (cachedStatusText (updateStatusBanner ?s6)), DrawAll, DrawGridLines])"
      using c5(1) c7(1) by (simp add: Let_def ui_fields)
    moreover have "count_list (c5 @ concat (map (widget_calls res) [0..<componentCount res]) @ c7
          @ [SetRightText (cachedStatusText (updateStatusBanner ?s6)), DrawAll, DrawGridLines]) ClearScreen
        = (if valid res \<and> screensaverActive s \<and> exit_condition res s then 1 else 0)"
      using c5(2) c7(2) \<open>valid res\<close> ex by (auto simp add: widget_calls_no_clear)
    ultimately show ?thesis by blast
  qed
qed

lemma applyFetchResults_locked:
  "applyFetchResults True now s = apply_result now (fetchResult s) (s\<lparr>newDataReady := False\<rparr>)"
  by (simp add: applyFetchResults_def take_result_def)

lemma applyFetchResults_unlocked:
  "applyFetchResults False now s = s"
  by (simp add: applyFetchResults_def take_result_def)

lemma no_change_when_equal:
  assumes "\<forall>i<componentCount res. prev ! i = status (components res ! i)"
  shows "\<not> fst (detect_changes res prev)" and "snd (detect_changes res prev) = prev"
proof -
  from assms show "\<not> fst (detect_changes res prev)"
    by (simp add: detect_changes_flag)
  show "snd (detect_changes res prev) = prev"
  proof (rule nth_equalityI)
    show "length (snd (detect_changes res prev)) = length prev"
      by (rule detect_changes_length)
  next
    fix j assume "j < length (snd (detect_changes res prev))"
    from assms show "snd (detect_changes res prev) ! j = prev ! j"
      by (auto simp add: detect_changes_nth)
  qed
qed

lemma apply_twice_no_change:
  assumes v: "valid res" and wf: "wf_result res" and len: "length (prevStatus s) = MAX_COMPONENTS"
    and cnt: "componentCount res' = componentCount res"
    and same: "\<forall>i<componentCount res. status (components res' ! i) = status (components res ! i)"
  shows "\<not> fst (detect_changes res' (prevStatus (apply_result now res s)))"
proof (rule no_change_when_equal(1), intro allI impI)
  fix i assume "i < componentCount res'"
  with cnt have i: "i < componentCount res" by simp
  have "prevStatus (apply_result now res s) ! i = status (components res ! i)"
    unfolding apply_valid_fields(1) [OF v]
    by (rule detect_changes_stored [OF wf len i])
  with same i show "prevStatus (apply_result now res s) ! i = status (components res' ! i)"
    by simp
qed

subsection \<open>Results built by the task\<close>

lemma component_loop_status_len:
  "\<forall>c \<in> set (components res). length (status c) \<le> 31 \<Longrightarrow>
   component_loop prev comps idx res = (idx', res') \<Longrightarrow>
   \<forall>c \<in> set (components res'). length (status c) \<le> 31"
proof (induction comps arbitrary: idx res)
  case Nil
  then show ?case by simp
next
  case (Cons entry rest)
  show ?case
  proof (cases "idx \<ge> MAX_COMPONENTS \<or> \<not> keep_entry entry")
    case True
    with Cons.prems have "(idx', res') = (idx, res) \<or> component_loop prev rest idx res = (idx', res')"
      by (auto simp add: keep_entry_def split: if_splits)
    with Cons.IH Cons.prems(1) show ?thesis by blast
  next
    case False
    let ?res1 = "res\<lparr>components := (components res) [idx := store_entry entry]\<rparr>"
    let ?res2 = "if prev ! idx \<noteq> comp_status entry then ?res1\<lparr>statusChanged := True\<rparr> else ?res1"
    let ?res3 = "classify (comp_status entry) ?res2"
    have run: "component_loop prev rest (idx + 1) ?res3 = (idx', res')"
      using Cons.prems(2) False
      by (auto simp add: Let_def keep_entry_def store_entry_def split: if_splits)
    have "set (components ?res3) \<subseteq> insert (store_entry entry) (set (components res))"
      by (simp add: classify_frame set_update_subset_insert)
    moreover have "length (status (store_entry entry)) \<le> 31"
      by (simp add: store_entry_def strncpy_def)
    ultimately have "\<forall>c \<in> set (components ?res3). length (status c) \<le> 31"
      using Cons.prems(1) by blast
    from Cons.IH [OF this run] show ?thesis .
  qed
qed

lemma fetch_components_failed:
  assumes "\<not> (httpCode env = HTTP_CODE_OK \<and> payload env \<noteq> None)"
  shows "componentCount (fetch_components prev env initResult) = 0"
    and "components (fetch_components prev env initResult) = replicate MAX_COMPONENTS zeroComponent"
    and "statusBarText (fetch_components prev env initResult) =
           (if httpCode env = HTTP_CODE_OK then ''JSON parse error''
            else take 47 (''HTTP error: '' @ dec_int (httpCode env)))"
  using assms
  by (auto simp add: fetch_components_def initResult_def zeroResult_def strncpy_def
        split: option.splits)

lemma wf_result_build: "wf_result (build_result prev env)"
proof (cases "httpCode env = HTTP_CODE_OK \<and> payload env \<noteq> None")
  case True
  then obtain comps where ok: "httpCode env = HTTP_CODE_OK" and pl: "payload env = Some comps"
    by auto
  obtain idx res1 where run: "component_loop prev comps 0 initResult = (idx, res1)"
    by (cases "component_loop prev comps 0 initResult")
  have "\<forall>c \<in> set (components initResult). length (status c) \<le> 31"
    by (simp add: initResult_def zeroResult_def zeroComponent_def)
  from component_loop_status_len [OF this run]
  have "\<forall>c \<in> set (components res1). length (status c) \<le> 31" .
  moreover have "components (fetch_components prev env initResult) = components res1"
    using ok pl run by (simp add: fetch_components_def Let_def split: option.splits prod.splits)
  ultimately show ?thesis
    using fetch_components_ok(1,7) [OF ok pl, of prev]
    by (simp add: wf_result_def build_result_frame filtered_def)
next
  case False
  from fetch_components_failed(1,2) [OF False, of prev] show ?thesis
    by (simp add: wf_result_def build_result_frame zeroComponent_def)
qed

lemma wf_result_zero: "wf_result zeroResult"
  by (simp add: wf_result_def zeroResult_def zeroComponent_def)

lemma wf_result_wifi:
  "wf_result res \<Longrightarrow> wf_result (res\<lparr>valid := False, statusBarText := t\<rparr>)"
  by (simp add: wf_result_def)

text \<open>The stored statuses of a valid result are those of the filtered feed, cut to 31 characters.\<close>

lemma stored_statuses_filtered:
  assumes "httpCode env = HTTP_CODE_OK" "payload env = Some comps"
  shows "stored_statuses (build_result prev env) = map (\<lambda>e. strncpy 31 (comp_status e)) (filtered comps)"
  using fetch_components_ok(2) [OF assms, of prev]
  by (simp add: stored_statuses_def build_result_frame store_entry_def comp_def)

text \<open>
  Two cycles of the task on the same feed, the first result applied before the second
  cycle runs: the second result is valid and does not set the flag when it is applied.
\<close>

lemma consecutive_identical_polls:
  fixes env1 env2 :: fetch_env and s :: app_state and now :: "32 word"
  assumes e1: "wifiConnected env1" "httpCode env1 = HTTP_CODE_OK" "payload env1 = Some comps"
      "publishLock env1"
    and e2: "wifiConnected env2" "httpCode env2 = HTTP_CODE_OK" "payload env2 = Some comps"
      "publishLock env2"
    and len: "length (prevStatus s) = MAX_COMPONENTS"
  defines "s1 \<equiv> fetchTaskFunc env1 s"
  defines "s2 \<equiv> applyFetchResults True now s1"
  defines "s3 \<equiv> fetchTaskFunc env2 s2"
  shows "valid (fetchResult s3) \<and> \<not> fst (detect_changes (fetchResult s3) (prevStatus s3))"
proof -
  let ?r1 = "build_result (prevStatus s) env1"
  let ?r2 = "build_result (prevStatus s2) env2"
  have f1: "fetchResult s1 = ?r1" and p1: "prevStatus s1 = prevStatus s"
    using e1 by (simp_all add: s1_def fetchTaskFunc_def publish_def)
  have v1: "valid ?r1" using e1 by (simp add: build_result_valid)
  have s2: "s2 = apply_result now ?r1 (s1\<lparr>newDataReady := False\<rparr>)"
    by (simp add: s2_def applyFetchResults_locked f1)
  have f3: "fetchResult s3 = ?r2" and p3: "prevStatus s3 = prevStatus s2"
    using e2 by (simp_all add: s3_def fetchTaskFunc_def publish_def)
  have v2: "valid ?r2" using e2 by (simp add: build_result_valid)
  have c1: "componentCount ?r1 = length (filtered comps)"
      "take (componentCount ?r1) (components ?r1) = map store_entry (filtered comps)"
    using fetch_components_ok(1,2) [OF e1(2,3), of "prevStatus s"]
    by (simp_all add: build_result_frame)
  have c2: "componentCount ?r2 = length (filtered comps)"
      "take (componentCount ?r2) (components ?r2) = map store_entry (filtered comps)"
    using fetch_components_ok(1,2) [OF e2(2,3), of "prevStatus s2"]
    by (simp_all add: build_result_frame)
  have same: "\<forall>i<componentCount ?r1. status (components ?r2 ! i) = status (components ?r1 ! i)"
  proof (intro allI impI)
    fix i assume i: "i < componentCount ?r1"
    from i c1(1) c2(1) have i2: "i < componentCount ?r2" by simp
    have a: "take (componentCount ?r1) (components ?r1) ! i = components ?r1 ! i"
      using i by (rule nth_take)
    have b: "take (componentCount ?r2) (components ?r2) ! i = components ?r2 ! i"
      using i2 by (rule nth_take)
    show "status (components ?r2 ! i) = status (components ?r1 ! i)"
      by (metis a b c1(2) c2(2))
  qed
  have "\<not> fst (detect_changes ?r2 (prevStatus (apply_result now ?r1 (s1\<lparr>newDataReady := False\<rparr>))))"
    by (rule apply_twice_no_change [OF v1 wf_result_build _ _ same])
       (simp_all add: p1 len c1 c2)
  then have "\<not> fst (detect_changes ?r2 (prevStatus s2))"
    by (simp only: s2 [symmetric] simp_thms)
  with v2 show ?thesis
    by (simp only: f3 p3 simp_thms)
qed

text \<open>
  The field \<open>statusChanged\<close> that the task stores in its result is not read by the
  foreground. It compares the table with the statuses as the feed gives them, before
  they are cut to the buffer: it agrees with the flag computed at application against
  the same table when no status of the filtered feed exceeds 31 characters.
\<close>

lemma statusChanged_field:
  assumes "httpCode env = HTTP_CODE_OK" "payload env = Some comps"
  shows "statusChanged (build_result prev env) \<longleftrightarrow>
           (\<exists>k < length (filtered comps). prev ! k \<noteq> comp_status (filtered comps ! k))"
  using fetch_components_ok(3) [OF assms, of prev] by (simp add: build_result_frame)

lemma statusChanged_field_agrees:
  assumes ok: "httpCode env = HTTP_CODE_OK" "payload env = Some comps"
    and short: "\<forall>e \<in> set (filtered comps). length (comp_status e) \<le> 31"
  shows "statusChanged (build_result prev env) = fst (detect_changes (build_result prev env) prev)"
proof -
  let ?R = "build_result prev env"
  have c: "componentCount ?R = length (filtered comps)"
    and t: "take (componentCount ?R) (components ?R) = map store_entry (filtered comps)"
    using fetch_components_ok(1,2) [OF ok, of prev] by (simp_all add: build_result_frame)
  have st: "status (components ?R ! k) = comp_status (filtered comps ! k)"
    if k: "k < length (filtered comps)" for k
  proof -
    from k c have "take (componentCount ?R) (components ?R) ! k = components ?R ! k"
      by simp
    with t k have "components ?R ! k = store_entry (filtered comps ! k)"
      by simp
    moreover from short k have "length (comp_status (filtered comps ! k)) \<le> 31"
      by simp
    ultimately show ?thesis
      by (simp add: store_entry_def strncpy_def)
  qed
  show ?thesis
    unfolding statusChanged_field [OF ok] detect_changes_flag c
    using st by auto
qed

lemma second_poll_unchanged:
  assumes e1: "httpCode env1 = HTTP_CODE_OK" "payload env1 = Some comps"
    and e2: "httpCode env2 = HTTP_CODE_OK" "payload env2 = Some comps"
    and len: "length prev = MAX_COMPONENTS"
  shows "\<not> fst (detect_changes
              (build_result (snd (detect_changes (build_result prev env1) prev)) env2)
              (snd (detect_changes (build_result prev env1) prev)))"
proof -
  let ?r1 = "build_result prev env1"
  let ?Q = "snd (detect_changes ?r1 prev)"
  let ?r2 = "build_result ?Q env2"
  have c1: "componentCount ?r1 = length (filtered comps)"
      "take (componentCount ?r1) (components ?r1) = map store_entry (filtered comps)"
    using fetch_components_ok(1,2) [OF e1, of prev] by (simp_all add: build_result_frame)
  have c2: "componentCount ?r2 = length (filtered comps)"
      "take (componentCount ?r2) (components ?r2) = map store_entry (filtered comps)"
    using fetch_components_ok(1,2) [OF e2, of ?Q] by (simp_all add: build_result_frame)
  show ?thesis
  proof (rule no_change_when_equal(1), intro allI impI)
    fix i assume "i < componentCount ?r2"
    with c1(1) c2(1) have i1: "i < componentCount ?r1" and i2: "i < componentCount ?r2"
      by simp_all
    have a: "take (componentCount ?r1) (components ?r1) ! i = components ?r1 ! i"
      using i1 by (rule nth_take)
    have b: "take (componentCount ?r2) (components ?r2) ! i = components ?r2 ! i"
      using i2 by (rule nth_take)
    have "?Q ! i = status (components ?r1 ! i)"
      by (rule detect_changes_stored [OF wf_result_build len i1])
    also have "components ?r1 ! i = components ?r2 ! i"
      by (metis a b c1(2) c2(2))
    finally show "?Q ! i = status (components ?r2 ! i)" .
  qed
qed

text \<open>
  With a longer status the field is set by every poll, also by one that repeats the
  poll before, while the flag computed at application is not.
\<close>

lemma statusChanged_field_long_status:
  "statusChanged (build_result
      (prevStatus (apply_result 0 (build_result ex_prev (ex_env ex_feed_long 0)) ex_state))
      (ex_env ex_feed_long 0)) \<and>
   \<not> fst (detect_changes
      (build_result
        (prevStatus (apply_result 0 (build_result ex_prev (ex_env ex_feed_long 0)) ex_state))
        (ex_env ex_feed_long 0))
      (prevStatus (apply_result 0 (build_result ex_prev (ex_env ex_feed_long 0)) ex_state)))"
proof -
  let ?R1 = "build_result ex_prev (ex_env ex_feed_long 0)"
  let ?P = "prevStatus (apply_result 0 ?R1 ex_state)"
  have v: "valid ?R1" by code_simp
  have p: "?P = snd (detect_changes ?R1 ex_prev)"
    by (simp add: apply_valid_fields(1) [OF v] ex_state_def)
  have p0: "snd (detect_changes ?R1 ex_prev) ! 0 = ''a_status_of_more_than_31_charac''"
    by code_simp
  have e: "httpCode (ex_env ex_feed_long 0) = HTTP_CODE_OK"
    "payload (ex_env ex_feed_long 0) = Some ex_feed_long"
    by (simp_all add: ex_env_def HTTP_CODE_OK_def)
  have f: "filtered ex_feed_long = ex_feed_long"
    by code_simp
  have cs: "comp_status (ex_feed_long ! 0) = ''a_status_of_more_than_31_characters''"
    and l: "0 < length ex_feed_long"
    by (simp_all add: ex_feed_long_def ex_entry_def)
  have "snd (detect_changes ?R1 ex_prev) ! 0 \<noteq> comp_status (ex_feed_long ! 0)"
    unfolding p0 cs by simp
  with l have "statusChanged (build_result ?P (ex_env ex_feed_long 0))"
    unfolding statusChanged_field [OF e] f p by blast
  moreover have "length ex_prev = MAX_COMPONENTS"
    by (simp add: ex_prev_def)
  from second_poll_unchanged [OF e e this]
  have "\<not> fst (detect_changes (build_result ?P (ex_env ex_feed_long 0)) ?P)"
    unfolding p .
  ultimately show ?thesis by blast
qed

subsection \<open>Entries of the table beyond the component count\<close>

text \<open>
  Claim C10. The change detection looks only at the indices below \<open>componentCount\<close> of
  the applied result and writes no other entry of \<open>prevStatus\<close>: the entries at indices
  from \<open>componentCount\<close> on keep their value, and a result that agrees with the table
  on its own indices does not set the flag, whatever the table holds beyond them.
\<close>

theorem stale_entries_persist:
  "(fst (detect_changes res prev) \<longleftrightarrow>
      (\<exists>i<componentCount res. prev ! i \<noteq> status (components res ! i))) \<and>
   length (snd (detect_changes res prev)) = length prev \<and>
   (\<forall>j. componentCount res \<le> j \<longrightarrow> snd (detect_changes res prev) ! j = prev ! j) \<and>
   (valid res \<longrightarrow>
      (\<forall>j. componentCount res \<le> j \<longrightarrow>
         prevStatus (apply_result now res s) ! j = prevStatus s ! j))"
  using detect_changes_flag [of res prev] detect_changes_length [of res prev]
    detect_changes_beyond [of res _ prev] detect_changes_beyond [of res _ "prevStatus s"]
    apply_valid_fields(1) [of res now s]
  by simp

lemma ex_state_fewer_prev:
  "prevStatus ex_state_fewer = ''major_outage'' # replicate 9 ''partial_outage''"
  by (simp add: ex_state_fewer_def)

theorem stale_entries_persist_witness:
  "valid (build_result (prevStatus ex_state_fewer) (ex_env ex_feed_one_major 0)) \<and>
   componentCount (build_result (prevStatus ex_state_fewer) (ex_env ex_feed_one_major 0)) = 1 \<and>
   \<not> fst (detect_changes (build_result (prevStatus ex_state_fewer) (ex_env ex_feed_one_major 0))
           (prevStatus ex_state_fewer)) \<and>
   prevStatus (apply_result 0 (build_result (prevStatus ex_state_fewer) (ex_env ex_feed_one_major 0))
                ex_state_fewer) ! 9 = ''partial_outage''"
proof -
  let ?R = "build_result (prevStatus ex_state_fewer) (ex_env ex_feed_one_major 0)"
  have v: "valid ?R" and c: "componentCount ?R = 1"
    unfolding ex_state_fewer_prev by code_simp+
  have e: "prevStatus ex_state_fewer ! 0 = status (components ?R ! 0)"
    and p: "prevStatus ex_state_fewer ! 9 = ''partial_outage''"
    unfolding ex_state_fewer_prev by code_simp+
  note t = stale_entries_persist [of ?R "prevStatus ex_state_fewer" 0 ex_state_fewer]
  from e c have "\<not> fst (detect_changes ?R (prevStatus ex_state_fewer))"
    unfolding t [THEN conjunct1] by simp
  moreover from t v c p
  have "prevStatus (apply_result 0 ?R ex_state_fewer) ! 9 = ''partial_outage''"
    by simp
  ultimately show ?thesis
    using v c by simp
qed

subsection \<open>A change of the incidents flag\<close>

text \<open>
  Claim C9. While the screensaver is active, applying a valid result whose incidents flag
  differs from the stored \<open>hasUnresolvedIncidents\<close> leaves the screensaver, whether or not
  a component status changed.
\<close>

theorem incident_change_exits:
  "screensaverActive s \<Longrightarrow> valid (fetchResult s) \<Longrightarrow>
   hasIncidents (fetchResult s) \<noteq> hasUnresolvedIncidents s \<Longrightarrow>
     \<not> screensaverActive (applyFetchResults True now s)"
  by (simp add: applyFetchResults_locked apply_valid_fields exit_condition_def)

lemma ex_state_incident_fields:
  "screensaverActive ex_state_incident"
  "fetchResult ex_state_incident = build_result ex_prev (ex_env ex_feed_ok 1)"
  "prevStatus ex_state_incident = ex_prev"
  "hasUnresolvedIncidents ex_state_incident = False"
  "newDataReady ex_state_incident"
  by (simp_all add: ex_state_incident_def ex_state_def)

theorem incident_change_exits_witness:
  "screensaverActive ex_state_incident \<and> valid (fetchResult ex_state_incident) \<and>
   hasIncidents (fetchResult ex_state_incident) \<noteq> hasUnresolvedIncidents ex_state_incident \<and>
   \<not> fst (detect_changes (fetchResult ex_state_incident) (prevStatus ex_state_incident)) \<and>
   \<not> screensaverActive (applyFetchResults True 0 ex_state_incident)"
proof -
  have a: "screensaverActive ex_state_incident"
    by (rule ex_state_incident_fields)
  have v: "valid (fetchResult ex_state_incident)"
    and i: "hasIncidents (fetchResult ex_state_incident) \<noteq> hasUnresolvedIncidents ex_state_incident"
    unfolding ex_state_incident_fields by code_simp+
  have "componentCount (fetchResult ex_state_incident) = 1"
    "prevStatus ex_state_incident ! 0 = status (components (fetchResult ex_state_incident) ! 0)"
    unfolding ex_state_incident_fields by code_simp+
  then have n: "\<not> fst (detect_changes (fetchResult ex_state_incident) (prevStatus ex_state_incident))"
    by (simp add: detect_changes_flag)
  from a v i n incident_change_exits [OF a v i, of 0] show ?thesis
    by (intro conjI)
qed

subsection \<open>What the blocks of the loop leave alone\<close>

lemma fold_preserves:
  assumes "\<And>x s. g (f x s) = g s"
  shows "g (fold f xs s) = g s"
  by (induction xs arbitrary: s) (simp_all add: assms)

lemma render_row_fields:
  "screensaverActive (render_row env i row s) = screensaverActive s"
  "prevStatus (render_row env i row s) = prevStatus s"
  "allOperational_g (render_row env i row s) = allOperational_g s"
  "hasUnresolvedIncidents (render_row env i row s) = hasUnresolvedIncidents s"
  "matrixSeverity (render_row env i row s) = matrixSeverity s"
  "fetchResult (render_row env i row s) = fetchResult s"
  "newDataReady (render_row env i row s) = newDataReady s"
  "cachedStatusText (render_row env i row s) = cachedStatusText s"
  "lastTouchTime (render_row env i row s) = lastTouchTime s"
  "colSprite (render_row env i row s) = colSprite s"
  "matrixCols (render_row env i row s) = matrixCols s"
  "screenW (render_row env i row s) = screenW s"
  "screenH (render_row env i row s) = screenH s"
  by (simp_all add: render_row_def Let_def ui_def split: prod.splits)

lemma render_column_fields:
  "screensaverActive (render_column env i s) = screensaverActive s"
  "prevStatus (render_column env i s) = prevStatus s"
  "allOperational_g (render_column env i s) = allOperational_g s"
  "hasUnresolvedIncidents (render_column env i s) = hasUnresolvedIncidents s"
  "matrixSeverity (render_column env i s) = matrixSeverity s"
  "fetchResult (render_column env i s) = fetchResult s"
  "newDataReady (render_column env i s) = newDataReady s"
  "cachedStatusText (render_column env i s) = cachedStatusText s"
  "lastTouchTime (render_column env i s) = lastTouchTime s"
  "colSprite (render_column env i s) = colSprite s"
  "matrixCols (render_column env i s) = matrixCols s"
  "screenW (render_column env i s) = screenW s"
  "screenH (render_column env i s) = screenH s"
  by (simp_all add: render_column_def Let_def ui_fields
        fold_preserves [where f = "render_row env i"] render_row_fields)

lemma update_columns_fields:
  "screensaverActive (update_columns env s) = screensaverActive s"
  "prevStatus (update_columns env s) = prevStatus s"
  "allOperational_g (update_columns env s) = allOperational_g s"
  "hasUnresolvedIncidents (update_columns env s) = hasUnresolvedIncidents s"
  "matrixSeverity (update_columns env s) = matrixSeverity s"
  "fetchResult (update_columns env s) = fetchResult s"
  "newDataReady (update_columns env s) = newDataReady s"
  "cachedStatusText (update_columns env s) = cachedStatusText s"
  "lastTouchTime (update_columns env s) = lastTouchTime s"
  "colSprite (update_columns env s) = colSprite s"
  "screenW (update_columns env s) = screenW s"
  "screenH (update_columns env s) = screenH s"
  "matrixGlyphIdx (update_columns env s) = matrixGlyphIdx s"
  "matrixColors (update_columns env s) = matrixColors s"
  "ui_log (update_columns env s) = ui_log s"
  by (simp_all add: update_columns_def)

lemma matrixDrawFrame_fields:
  "screensaverActive (matrixDrawFrame env s) = screensaverActive s"
  "prevStatus (matrixDrawFrame env s) = prevStatus s"
  "allOperational_g (matrixDrawFrame env s) = allOperational_g s"
  "hasUnresolvedIncidents (matrixDrawFrame env s) = hasUnresolvedIncidents s"
  "matrixSeverity (matrixDrawFrame env s) = matrixSeverity s"
  "fetchResult (matrixDrawFrame env s) = fetchResult s"
  "newDataReady (matrixDrawFrame env s) = newDataReady s"
  "cachedStatusText (matrixDrawFrame env s) = cachedStatusText s"
  "lastTouchTime (matrixDrawFrame env s) = lastTouchTime s"
  "colSprite (matrixDrawFrame env s) = colSprite s"
  "screenW (matrixDrawFrame env s) = screenW s"
  "screenH (matrixDrawFrame env s) = screenH s"
  by (simp_all add: matrixDrawFrame_def Let_def update_columns_fields
        fold_preserves [where f = "render_column env"] render_column_fields)

lemma matrixStartScreensaver_fields:
  "screensaverActive (matrixStartScreensaver now rnd s) = True"
  "prevStatus (matrixStartScreensaver now rnd s) = prevStatus s"
  "allOperational_g (matrixStartScreensaver now rnd s) = allOperational_g s"
  "hasUnresolvedIncidents (matrixStartScreensaver now rnd s) = hasUnresolvedIncidents s"
  "matrixSeverity (matrixStartScreensaver now rnd s) = matrixSeverity s"
  "fetchResult (matrixStartScreensaver now rnd s) = fetchResult s"
  "newDataReady (matrixStartScreensaver now rnd s) = newDataReady s"
  "cachedStatusText (matrixStartScreensaver now rnd s) = cachedStatusText s"
  "lastTouchTime (matrixStartScreensaver now rnd s) = lastTouchTime s"
  "colSprite (matrixStartScreensaver now rnd s) = True"
  by (simp_all add: matrixStartScreensaver_def matrixInit_def Let_def ui_def)

lemma touch_block_fields:
  "fetchResult (touch_block env s) = fetchResult s"
  "newDataReady (touch_block env s) = newDataReady s"
  "prevStatus (touch_block env s) = prevStatus s"
  by (simp_all add: touch_block_def Let_def stop_fields)

lemma idle_block_fields:
  "fetchResult (idle_block env s) = fetchResult s"
  "newDataReady (idle_block env s) = newDataReady s"
  "prevStatus (idle_block env s) = prevStatus s"
  "screensaverActive s \<Longrightarrow> idle_block env s = s"
  by (simp_all add: idle_block_def matrixStartScreensaver_fields)

lemma animate_block_fields:
  "fetchResult (animate_block env s) = fetchResult s"
  "newDataReady (animate_block env s) = newDataReady s"
  "prevStatus (animate_block env s) = prevStatus s"
  "screensaverActive (animate_block env s) = screensaverActive s"
  "\<not> screensaverActive s \<Longrightarrow> animate_block env s = s"
  by (simp_all add: animate_block_def matrixDrawFrame_fields)

lemma apply_result_slot:
  "fetchResult (apply_result now res s) = fetchResult s"
  "newDataReady (apply_result now res s) = newDataReady s"
proof -
  obtain ch prev where dc: "detect_changes res (prevStatus s) = (ch, prev)"
    by (cases "detect_changes res (prevStatus s)")
  show "fetchResult (apply_result now res s) = fetchResult s"
    "newDataReady (apply_result now res s) = newDataReady s"
    by (simp_all add: apply_result_def Let_def dc ui_fields stop_fields updateStatusBanner_fields)
qed

lemma data_block_slot:
  "fetchResult (data_block env s) = fetchResult s"
  "newDataReady (data_block env s) = (newDataReady s \<and> \<not> consumeLock env)"
  by (cases "consumeLock env";
      simp add: data_block_def applyFetchResults_locked applyFetchResults_unlocked apply_result_slot)+

lemma loop_slot:
  "fetchResult (loop env s) = fetchResult s"
  "newDataReady (loop env s) = (newDataReady s \<and> \<not> consumeLock env)"
  by (simp_all add: loop_def animate_block_fields idle_block_fields data_block_slot touch_block_fields)

subsection \<open>Consecutive polls with the same statuses\<close>

text \<open>An iteration of the loop that does not obtain the mutex leaves the table alone.\<close>

lemma loop_missed_take:
  "\<not> consumeLock env \<Longrightarrow> prevStatus (loop env s) = prevStatus s"
  by (simp add: loop_def animate_block_fields idle_block_fields data_block_def
        applyFetchResults_unlocked touch_block_fields)

lemma detect_changes_field:
  "detect_changes (res\<lparr>statusChanged := b\<rparr>) prev = detect_changes res prev"
proof -
  have "detect_step (res\<lparr>statusChanged := b\<rparr>) = detect_step res"
    by (simp add: fun_eq_iff detect_step_def)
  then show ?thesis
    by (simp add: detect_changes_def)
qed

lemma apply_result_field:
  "apply_result now (res\<lparr>statusChanged := b\<rparr>) s = apply_result now res s"
proof -
  have "widget_calls (res\<lparr>statusChanged := b\<rparr>) = widget_calls res"
    by (simp add: fun_eq_iff widget_calls_def)
  moreover obtain ch prev where "detect_changes res (prevStatus s) = (ch, prev)"
    by (cases "detect_changes res (prevStatus s)")
  ultimately show ?thesis
    by (simp add: apply_result_def Let_def detect_changes_field)
qed

lemma ex_state_polled_fields:
  "fetchResult ex_state_polled = build_result ex_prev (ex_env ex_feed_major 0)"
  "prevStatus ex_state_polled = ex_prev"
  "newDataReady ex_state_polled"
  "fetchResult ex_state_polled_again = build_result ex_prev (ex_env ex_feed_major 0)"
  "prevStatus ex_state_polled_again = ex_prev"
proof -
  have l: "\<not> consumeLock (ex_loop_env False)"
    by (simp add: ex_loop_env_def)
  have e: "wifiConnected (ex_env ex_feed_major 0)" "publishLock (ex_env ex_feed_major 0)"
    by (simp_all add: ex_env_def)
  have p: "prevStatus ex_state = ex_prev"
    by (simp add: ex_state_def)
  show a: "fetchResult ex_state_polled = build_result ex_prev (ex_env ex_feed_major 0)"
    using e p by (simp add: ex_state_polled_def loop_slot fetchTaskFunc_def publish_def)
  show b: "prevStatus ex_state_polled = ex_prev"
    using e p l by (simp add: ex_state_polled_def loop_missed_take fetchTaskFunc_def publish_def)
  show "newDataReady ex_state_polled"
    using e l by (simp add: ex_state_polled_def loop_slot fetchTaskFunc_def publish_def)
  show "fetchResult ex_state_polled_again = build_result ex_prev (ex_env ex_feed_major 0)"
    using e b by (simp add: ex_state_polled_again_def fetchTaskFunc_def publish_def)
  show "prevStatus ex_state_polled_again = ex_prev"
    using e b by (simp add: ex_state_polled_again_def fetchTaskFunc_def publish_def)
qed

text \<open>
  Claim C1, as stated, fails when the result of the first of two identical polls is not
  applied before the second: the iteration of the loop between the two polls does not
  obtain the mutex, the second publication overwrites the first with an identical
  result, and the flag computed when that result is applied is set, because the table
  still holds the statuses of the result applied before the first poll. The field that
  the task stores in its result is set as well.
\<close>

theorem identical_polls_counterexample:
  "valid (fetchResult ex_state_polled) \<and> newDataReady ex_state_polled \<and>
   fetchResult ex_state_polled_again = fetchResult ex_state_polled \<and>
   fst (detect_changes (fetchResult ex_state_polled_again) (prevStatus ex_state_polled_again)) \<and>
   statusChanged (fetchResult ex_state_polled_again)"
proof -
  let ?R = "build_result ex_prev (ex_env ex_feed_major 0)"
  have "1 < componentCount ?R" "ex_prev ! 1 \<noteq> status (components ?R ! 1)"
    by code_simp+
  then have "\<exists>i<componentCount ?R. ex_prev ! i \<noteq> status (components ?R ! i)"
    by blast
  then have "fst (detect_changes ?R ex_prev)"
    by (simp only: detect_changes_flag)
  moreover have "valid ?R" "statusChanged ?R"
    by code_simp+
  ultimately show ?thesis
    by (simp only: ex_state_polled_fields simp_thms)
qed

text \<open>
  Claim C1, amended. The change flag is the local \<^verbatim>\<open>statusChanged\<close> computed when a
  result is applied: it is true if and only if, at some index below \<open>componentCount\<close>,
  the status in the result differs from the entry of \<open>prevStatus\<close>, which holds the
  statuses of the results applied so far. The field \<open>statusChanged\<close> that the task stores
  in a result is not read when the result is applied; the task sets it if and only if
  the status of some filtered component, as the feed gives it, differs from the entry of
  the table that the task reads. Once a valid result has been applied, a result with the
  same component statuses does not set the flag.
\<close>

theorem statusChanged_detection:
  "(fst (detect_changes res prev) \<longleftrightarrow>
      (\<exists>i<componentCount res. prev ! i \<noteq> status (components res ! i))) \<and>
   apply_result now (res\<lparr>statusChanged := b\<rparr>) s = apply_result now res s \<and>
   (httpCode env = HTTP_CODE_OK \<and> payload env = Some comps \<longrightarrow>
      (statusChanged (build_result prev env) \<longleftrightarrow>
         (\<exists>k<length (filtered comps). prev ! k \<noteq> comp_status (filtered comps ! k)))) \<and>
   (valid res \<and> wf_result res \<and> length (prevStatus s) = MAX_COMPONENTS \<and>
    componentCount res' = componentCount res \<and>
    (\<forall>i<componentCount res. status (components res' ! i) = status (components res ! i))
      \<longrightarrow> \<not> fst (detect_changes res' (prevStatus (apply_result now res s))))"
proof -
  have "httpCode env = HTTP_CODE_OK \<and> payload env = Some comps \<longrightarrow>
      (statusChanged (build_result prev env) \<longleftrightarrow>
         (\<exists>k<length (filtered comps). prev ! k \<noteq> comp_status (filtered comps ! k)))"
    using statusChanged_field [of env comps prev] by blast
  with detect_changes_flag [of res prev] apply_twice_no_change [of res s res' now]
    apply_result_field [where now = now and res = res and b = b and s = s]
  show ?thesis
    by blast
qed

theorem statusChanged_detection_witness:
  "fst (detect_changes (build_result ex_prev (ex_env ex_feed_major 0)) ex_prev) \<and>
   apply_result 0 ((build_result ex_prev (ex_env ex_feed_major 0))\<lparr>statusChanged := False\<rparr>) ex_state
     = apply_result 0 (build_result ex_prev (ex_env ex_feed_major 0)) ex_state \<and>
   statusChanged (build_result ex_prev (ex_env ex_feed_major 0)) \<and>
   \<not> fst (detect_changes (build_result ex_prev (ex_env ex_feed_major 0))
           (prevStatus (apply_result 0 (build_result ex_prev (ex_env ex_feed_major 0)) ex_state)))"
proof -
  let ?E = "ex_env ex_feed_major 0"
  let ?R = "build_result ex_prev ?E"
  have "1 < componentCount ?R" "ex_prev ! 1 \<noteq> status (components ?R ! 1)"
    by code_simp+
  then have a: "\<exists>i<componentCount ?R. ex_prev ! i \<noteq> status (components ?R ! i)"
    by blast
  have "valid ?R" "wf_result ?R" "length (prevStatus ex_state) = MAX_COMPONENTS"
    by code_simp+
  then have h: "valid ?R \<and> wf_result ?R \<and> length (prevStatus ex_state) = MAX_COMPONENTS \<and>
    componentCount ?R = componentCount ?R \<and>
    (\<forall>i<componentCount ?R. status (components ?R ! i) = status (components ?R ! i))"
    by simp
  have e: "httpCode ?E = HTTP_CODE_OK \<and> payload ?E = Some ex_feed_major"
    by (simp add: ex_env_def HTTP_CODE_OK_def)
  have "1 < length (filtered ex_feed_major)"
    "ex_prev ! 1 \<noteq> comp_status (filtered ex_feed_major ! 1)"
    by code_simp+
  then have k: "\<exists>k<length (filtered ex_feed_major).
      ex_prev ! k \<noteq> comp_status (filtered ex_feed_major ! k)"
    by blast
  note t = statusChanged_detection [where res = ?R and prev = ex_prev and now = 0 and b = False
      and s = ex_state and res' = ?R and env = ?E and comps = ex_feed_major]
  from a have "fst (detect_changes ?R ex_prev)"
    unfolding t [THEN conjunct1] .
  moreover note t [THEN conjunct2, THEN conjunct1]
  moreover from k have "statusChanged ?R"
    unfolding t [THEN conjunct2, THEN conjunct2, THEN conjunct1, THEN mp, OF e] .
  moreover from h have "\<not> fst (detect_changes ?R (prevStatus (apply_result 0 ?R ex_state)))"
    by (rule t [THEN conjunct2, THEN conjunct2, THEN conjunct2, THEN mp])
  ultimately show ?thesis by (intro conjI)
qed

subsection \<open>The slot keeps the latest result\<close>

lemma taken_by_eq:
  "taken_by env s = (if newDataReady s \<and> consumeLock env then Some (fetchResult s) else None)"
  by (simp add: taken_by_def Let_def take_result_def touch_block_fields)

lemma taken_not_ready:
  "\<not> newDataReady s \<Longrightarrow> filter (\<lambda>r. r \<noteq> None) (taken envs s) = []"
  by (induction envs arbitrary: s) (simp_all add: taken_by_eq loop_slot)

lemma taken_ready:
  "newDataReady s \<Longrightarrow>
   filter (\<lambda>r. r \<noteq> None) (taken envs s) =
     (if \<exists>env \<in> set envs. consumeLock env then [Some (fetchResult s)] else [])"
proof (induction envs arbitrary: s)
  case Nil
  show ?case by simp
next
  case (Cons env envs)
  show ?case
  proof (cases "consumeLock env")
    case True
    with Cons.prems have "\<not> newDataReady (loop env s)"
      by (simp add: loop_slot)
    from taken_not_ready [OF this] True Cons.prems show ?thesis
      by (simp add: taken_by_eq)
  next
    case False
    with Cons.prems have "newDataReady (loop env s)"
      by (simp add: loop_slot)
    from Cons.IH [OF this] False show ?thesis
      by (simp add: taken_by_eq loop_slot)
  qed
qed

text \<open>
  What \<open>taken_by\<close> reports is what the data block of the loop does: an iteration is the
  one in which that result is copied out and applied, or the one in which nothing is.
\<close>

lemma loop_iteration:
  "loop env s = iteration (taken_by env s) env s"
  by (simp add: loop_def iteration_def taken_by_def data_block_def applyFetchResults_def
        take_result_def Let_def)

text \<open>
  Claim C5. The slot is latest-wins: after the task has published \<open>A\<close> and then \<open>B\<close>
  with no take in between, the state is the one reached by publishing \<open>B\<close> alone. Every
  iteration of the loop is the one told by what it takes: with a result taken, the flag
  is cleared and that result is applied; with none, the data block does nothing. Over
  any run of loop iterations that follows the two publications (with no further
  publication) exactly one take succeeds, in the first iteration that obtains the mutex,
  and it yields \<open>B\<close>.
\<close>

theorem latest_wins:
  "publish True B (publish True A s) = publish True B s \<and>
   loop e t = iteration (taken_by e t) e t \<and>
   filter (\<lambda>r. r \<noteq> None) (taken envs (publish True B (publish True A s))) =
     (if \<exists>env \<in> set envs. consumeLock env then [Some B] else [])"
proof -
  have "newDataReady (publish True B (publish True A s))"
    and "fetchResult (publish True B (publish True A s)) = B"
    by (simp_all add: publish_def)
  with taken_ready [of "publish True B (publish True A s)" envs] loop_iteration [of e t]
  show ?thesis
    by (simp add: publish_def)
qed

theorem latest_wins_witness:
  "loop (ex_loop_env True) ex_state_changed =
     iteration (Some (build_result ex_prev (ex_env ex_feed_major 0))) (ex_loop_env True) ex_state_changed \<and>
   filter (\<lambda>r. r \<noteq> None)
     (taken [ex_loop_env False, ex_loop_env True, ex_loop_env True]
        (publish True (build_result ex_prev (ex_env ex_feed_ok 0))
           (publish True (build_result ex_prev (ex_env ex_feed_major 0)) ex_state)))
   = [Some (build_result ex_prev (ex_env ex_feed_ok 0))]"
proof -
  note t = latest_wins [where B = "build_result ex_prev (ex_env ex_feed_ok 0)"
      and A = "build_result ex_prev (ex_env ex_feed_major 0)" and s = ex_state
      and e = "ex_loop_env True" and t = ex_state_changed
      and envs = "[ex_loop_env False, ex_loop_env True, ex_loop_env True]"]
  have "taken_by (ex_loop_env True) ex_state_changed = Some (build_result ex_prev (ex_env ex_feed_major 0))"
    by (simp add: taken_by_eq ex_state_changed_def ex_loop_env_def)
  with t [THEN conjunct2, THEN conjunct1]
  have a: "loop (ex_loop_env True) ex_state_changed =
     iteration (Some (build_result ex_prev (ex_env ex_feed_major 0))) (ex_loop_env True) ex_state_changed"
    by (simp only:)
  have "\<exists>env \<in> set [ex_loop_env False, ex_loop_env True, ex_loop_env True]. consumeLock env"
    by (simp add: ex_loop_env_def)
  with t [THEN conjunct2, THEN conjunct2]
  have b: "filter (\<lambda>r. r \<noteq> None)
     (taken [ex_loop_env False, ex_loop_env True, ex_loop_env True]
        (publish True (build_result ex_prev (ex_env ex_feed_ok 0))
           (publish True (build_result ex_prev (ex_env ex_feed_major 0)) ex_state)))
   = [Some (build_result ex_prev (ex_env ex_feed_ok 0))]"
    by (simp only: if_True)
  from a b show ?thesis by (rule conjI)
qed

text \<open>
  A publication through the network-down branch after \<open>A\<close> writes two fields of the slot
  in place, so the one take that follows yields those two fields with the other fields
  of \<open>A\<close>. The foreground's reaction to an invalid result depends on the status text
  alone.
\<close>

lemma network_down_after_publish:
  "filter (\<lambda>r. r \<noteq> None) (taken envs (publish_wifi_error True (publish True A s))) =
     (if \<exists>env \<in> set envs. consumeLock env
      then [Some (A\<lparr>valid := False, statusBarText := strncpy 48 ''WiFi disconnected''\<rparr>)]
      else [])"
proof -
  have "newDataReady (publish_wifi_error True (publish True A s))"
    and "fetchResult (publish_wifi_error True (publish True A s)) =
      A\<lparr>valid := False, statusBarText := strncpy 48 ''WiFi disconnected''\<rparr>"
    by (simp_all add: publish_wifi_error_def publish_def)
  with taken_ready [of "publish_wifi_error True (publish True A s)" envs] show ?thesis
    by simp
qed

lemma apply_invalid_only_text:
  "\<not> valid res \<Longrightarrow> \<not> valid res' \<Longrightarrow> statusBarText res = statusBarText res' \<Longrightarrow>
     apply_result now res s = apply_result now res' s"
  by (simp add: apply_result_def Let_def)

subsection \<open>Leaving the screensaver when a status changed\<close>

lemma apply_no_exit:
  assumes "valid res" "screensaverActive s" "\<not> exit_condition res s"
  shows "apply_result now res s =
     s\<lparr>cachedStatusText := strncpy 48 (statusBarText res),
       prevStatus := snd (detect_changes res (prevStatus s)),
       allOperational_g := allOperational res,
       hasUnresolvedIncidents := hasIncidents res,
       matrixSeverity := worstSeverity res\<rparr>"
proof -
  obtain ch prev where dc: "detect_changes res (prevStatus s) = (ch, prev)"
    by (cases "detect_changes res (prevStatus s)")
  from assms show ?thesis
    by (simp add: apply_result_def Let_def dc exit_condition_def)
qed

lemma data_block_locked:
  "newDataReady s \<Longrightarrow> consumeLock env \<Longrightarrow>
     data_block env s = apply_result (t_stop env) (fetchResult s) (s\<lparr>newDataReady := False\<rparr>)"
  by (simp add: data_block_def applyFetchResults_locked)

lemma exit_condition_flag_cleared:
  "exit_condition res (s\<lparr>newDataReady := b\<rparr>) = exit_condition res s"
  by (simp add: exit_condition_def)

lemma loop_after_exit:
  assumes "touchCount env = 0" "\<not> screensaverActive (data_block env s)"
    "lastTouchTime (data_block env s) = t_stop env"
    "screenAsleep env \<or> t_idle env - t_stop env < SCREENSAVER_TIMEOUT"
  shows "loop env s = data_block env s"
proof -
  have t: "touch_block env s = s"
    using assms(1) by (simp add: touch_block_def)
  have i: "idle_block env (data_block env s) = data_block env s"
    using assms(3,4) by (auto simp add: idle_block_def)
  show ?thesis
    by (simp add: loop_def t i animate_block_fields(5) [OF assms(2)])
qed

text \<open>
  Claim C2 as stated, "a snapshot whose change flag is false leaves the screensaver state
  unchanged", fails: no stored status differs from the table and the \<open>statusChanged\<close>
  field of the result is false, but the incidents flag differs from the stored one, and
  the screensaver is left.
\<close>

theorem exit_on_change_counterexample:
  "screensaverActive ex_state_incident \<and> newDataReady ex_state_incident \<and>
   valid (fetchResult ex_state_incident) \<and>
   \<not> statusChanged (fetchResult ex_state_incident) \<and>
   \<not> fst (detect_changes (fetchResult ex_state_incident) (prevStatus ex_state_incident)) \<and>
   \<not> screensaverActive (loop (ex_loop_env True) ex_state_incident)"
proof -
  let ?env = "ex_loop_env True"
  have a: "screensaverActive ex_state_incident" and r: "newDataReady ex_state_incident"
    by (rule ex_state_incident_fields)+
  have v: "valid (fetchResult ex_state_incident)"
    and f: "\<not> statusChanged (fetchResult ex_state_incident)"
    and i: "hasUnresolvedIncidents ex_state_incident \<noteq> hasIncidents (fetchResult ex_state_incident)"
    unfolding ex_state_incident_fields by code_simp+
  have "componentCount (fetchResult ex_state_incident) = 1"
    "prevStatus ex_state_incident ! 0 = status (components (fetchResult ex_state_incident) ! 0)"
    unfolding ex_state_incident_fields by code_simp+
  then have n: "\<not> fst (detect_changes (fetchResult ex_state_incident) (prevStatus ex_state_incident))"
    by (simp add: detect_changes_flag)
  have env: "touchCount ?env = 0" "consumeLock ?env" "t_idle ?env - t_stop ?env < SCREENSAVER_TIMEOUT"
    by (simp_all add: ex_loop_env_def SCREENSAVER_TIMEOUT_def)
  have d: "data_block ?env ex_state_incident =
      apply_result (t_stop ?env) (fetchResult ex_state_incident) (ex_state_incident\<lparr>newDataReady := False\<rparr>)"
    by (rule data_block_locked [OF r env(2)])
  have x: "\<not> screensaverActive (data_block ?env ex_state_incident)"
    and l: "lastTouchTime (data_block ?env ex_state_incident) = t_stop ?env"
    using a i by (simp_all add: d apply_valid_fields [OF v] exit_condition_def)
  from loop_after_exit [OF env(1) x l] env(3)
  have "loop ?env ex_state_incident = data_block ?env ex_state_incident"
    by blast
  with x a r v f n show ?thesis
    by simp
qed

text \<open>
  Claim C2, amended. Let the screensaver be active when the loop finds new data, obtains
  the mutex and applies a valid result, with no touch in that iteration. If the change
  flag computed by \<^verbatim>\<open>applyFetchResults\<close> is true, the screensaver is left, with exactly
  one run of \<^verbatim>\<open>matrixStopScreensaver\<close> (one \<open>ClearScreen\<close> among the new calls), and,
  unless the idle timeout elapses again within the same iteration, the iteration ends
  there: no frame is drawn. If the flag is false and the incidents flag of the result
  equals the stored one, the screensaver stays active, nothing is sent to the display
  by the data block, and the iteration ends with the screensaver active.
\<close>

theorem screensaver_exit_on_change:
  assumes "screensaverActive s" "newDataReady s" "valid (fetchResult s)"
    and "touchCount env = 0" "consumeLock env"
  shows "(fst (detect_changes (fetchResult s) (prevStatus s)) \<longrightarrow>
            \<not> screensaverActive (data_block env s) \<and>
            (\<exists>calls. ui_log (data_block env s) = ui_log s @ calls \<and> count_list calls ClearScreen = 1) \<and>
            (screenAsleep env \<or> t_idle env - t_stop env < SCREENSAVER_TIMEOUT \<longrightarrow>
               loop env s = data_block env s)) \<and>
         (\<not> fst (detect_changes (fetchResult s) (prevStatus s)) \<and>
          hasIncidents (fetchResult s) = hasUnresolvedIncidents s \<longrightarrow>
            screensaverActive (data_block env s) \<and>
            ui_log (data_block env s) = ui_log s \<and>
            colSprite (data_block env s) = colSprite s \<and>
            lastTouchTime (data_block env s) = lastTouchTime s \<and>
            screensaverActive (loop env s))"
proof (intro conjI impI)
  let ?res = "fetchResult s"
  let ?s1 = "s\<lparr>newDataReady := False\<rparr>"
  have d: "data_block env s = apply_result (t_stop env) ?res ?s1"
    by (rule data_block_locked [OF assms(2,5)])
  have a1: "screensaverActive ?s1" using assms(1) by simp
  {
    assume ch: "fst (detect_changes ?res (prevStatus s))"
    then have ex: "exit_condition ?res ?s1"
      by (simp add: exit_condition_def)
    show x: "\<not> screensaverActive (data_block env s)"
      using ex by (simp add: d apply_valid_fields [OF assms(3)])
    from apply_log [of "t_stop env" ?res ?s1] ex a1 assms(3)
    show "\<exists>calls. ui_log (data_block env s) = ui_log s @ calls \<and> count_list calls ClearScreen = 1"
      by (simp add: d)
    have l: "lastTouchTime (data_block env s) = t_stop env"
      using ex a1 by (simp add: d apply_valid_fields [OF assms(3)])
    assume "screenAsleep env \<or> t_idle env - t_stop env < SCREENSAVER_TIMEOUT"
    then show "loop env s = data_block env s"
      by (rule loop_after_exit [OF assms(4) x l])
  }
  assume "\<not> fst (detect_changes ?res (prevStatus s)) \<and> hasIncidents ?res = hasUnresolvedIncidents s"
  then have nex: "\<not> exit_condition ?res ?s1"
    by (simp add: exit_condition_def)
  note eq = apply_no_exit [OF assms(3) a1 nex, of "t_stop env"]
  show act: "screensaverActive (data_block env s)"
    using assms(1) by (simp add: d eq)
  show "ui_log (data_block env s) = ui_log s"
    by (simp add: d eq)
  show "colSprite (data_block env s) = colSprite s"
    by (simp add: d eq)
  show "lastTouchTime (data_block env s) = lastTouchTime s"
    by (simp add: d eq)
  have t: "touch_block env s = s"
    using assms(4) by (simp add: touch_block_def)
  show "screensaverActive (loop env s)"
    using act by (simp add: loop_def t animate_block_fields idle_block_fields(4))
qed

lemma ex_state_changed_fields:
  "screensaverActive ex_state_changed"
  "fetchResult ex_state_changed = build_result ex_prev (ex_env ex_feed_major 0)"
  "prevStatus ex_state_changed = ex_prev"
  "hasUnresolvedIncidents ex_state_changed = False"
  "newDataReady ex_state_changed"
  by (simp_all add: ex_state_changed_def ex_state_def)

lemma ex_state_same_fields:
  "screensaverActive ex_state_same"
  "fetchResult ex_state_same = build_result ex_prev (ex_env ex_feed_ok 0)"
  "prevStatus ex_state_same = ex_prev"
  "hasUnresolvedIncidents ex_state_same = False"
  "newDataReady ex_state_same"
  by (simp_all add: ex_state_same_def ex_state_def)

theorem screensaver_exit_on_change_witness:
  "(screensaverActive ex_state_changed \<and> newDataReady ex_state_changed \<and>
    valid (fetchResult ex_state_changed) \<and>
    fst (detect_changes (fetchResult ex_state_changed) (prevStatus ex_state_changed)) \<and>
    \<not> screensaverActive (data_block (ex_loop_env True) ex_state_changed) \<and>
    loop (ex_loop_env True) ex_state_changed = data_block (ex_loop_env True) ex_state_changed) \<and>
   (screensaverActive ex_state_same \<and> newDataReady ex_state_same \<and>
    valid (fetchResult ex_state_same) \<and>
    \<not> fst (detect_changes (fetchResult ex_state_same) (prevStatus ex_state_same)) \<and>
    hasIncidents (fetchResult ex_state_same) = hasUnresolvedIncidents ex_state_same \<and>
    screensaverActive (loop (ex_loop_env True) ex_state_same))"
proof -
  let ?env = "ex_loop_env True"
  have env: "touchCount ?env = 0" "consumeLock ?env"
    "screenAsleep ?env \<or> t_idle ?env - t_stop ?env < SCREENSAVER_TIMEOUT"
    by (simp_all add: ex_loop_env_def SCREENSAVER_TIMEOUT_def)
  have a1: "screensaverActive ex_state_changed" and r1: "newDataReady ex_state_changed"
    by (rule ex_state_changed_fields)+
  have v1: "valid (fetchResult ex_state_changed)"
    unfolding ex_state_changed_fields by code_simp
  have "1 < componentCount (fetchResult ex_state_changed)"
    "prevStatus ex_state_changed ! 1 \<noteq> status (components (fetchResult ex_state_changed) ! 1)"
    unfolding ex_state_changed_fields by code_simp+
  then have c1: "fst (detect_changes (fetchResult ex_state_changed) (prevStatus ex_state_changed))"
    unfolding detect_changes_flag by blast
  note t1 = screensaver_exit_on_change [OF a1 r1 v1 env(1,2), THEN conjunct1, THEN mp, OF c1]
  have a2: "screensaverActive ex_state_same" and r2: "newDataReady ex_state_same"
    by (rule ex_state_same_fields)+
  have v2: "valid (fetchResult ex_state_same)"
    and i2: "hasIncidents (fetchResult ex_state_same) = hasUnresolvedIncidents ex_state_same"
    unfolding ex_state_same_fields by code_simp+
  have "componentCount (fetchResult ex_state_same) = 1"
    "prevStatus ex_state_same ! 0 = status (components (fetchResult ex_state_same) ! 0)"
    unfolding ex_state_same_fields by code_simp+
  then have c2: "\<not> fst (detect_changes (fetchResult ex_state_same) (prevStatus ex_state_same))"
    by (simp add: detect_changes_flag)
  note t2 = screensaver_exit_on_change [OF a2 r2 v2 env(1,2), THEN conjunct2, THEN mp,
      OF conjI [OF c2 i2]]
  from t1 env(3) have "loop ?env ex_state_changed = data_block ?env ex_state_changed"
    by blast
  with t1 t2 a1 r1 v1 c1 a2 r2 v2 c2 i2 show ?thesis
    by blast
qed

subsection \<open>Invalid snapshots\<close>

lemma dec_nat_length:
  "n < 10 ^ k \<Longrightarrow> 0 < k \<Longrightarrow> length (dec_nat n) \<le> k"
proof (induction n arbitrary: k rule: dec_nat.induct)
  case (1 n)
  show ?case
  proof (cases "n < 10")
    case True
    with "1.prems" show ?thesis
      by (subst dec_nat.simps) simp
  next
    case False
    from "1.prems" obtain k' where k: "k = Suc k'"
      by (cases k) auto
    from False "1.prems" k have "0 < k'"
      by (cases k') auto
    moreover from "1.prems" k have "n div 10 < 10 ^ k'"
      by (simp add: less_mult_imp_div_less mult.commute)
    ultimately have "length (dec_nat (n div 10)) \<le> k'"
      using "1.IH" [OF False] by blast
    with False k show ?thesis
      by (subst dec_nat.simps) simp
  qed
qed

lemma dec_int_length:
  assumes "- 2147483648 \<le> i" "i < 2147483648"
  shows "length (dec_int i) \<le> 11"
proof (cases "i < 0")
  case True
  with assms have "nat (- i) < 10 ^ 10" by simp
  from dec_nat_length [OF this] True show ?thesis
    by (simp add: dec_int_def)
next
  case False
  with assms have "nat i < 10 ^ 10" by simp
  from dec_nat_length [OF this] False show ?thesis
    by (simp add: dec_int_def)
qed

lemma http_error_text:
  assumes "- 2147483648 \<le> i" "i < 2147483648"
  shows "take 47 (''HTTP error: '' @ dec_int i) = ''HTTP error: '' @ dec_int i"
  using dec_int_length [OF assms] by simp

lemma fetchTaskFunc_slot:
  "publishLock env \<Longrightarrow>
     fetchResult (fetchTaskFunc env s) =
       (if \<not> wifiConnected env
        then (fetchResult s)\<lparr>valid := False, statusBarText := ''WiFi disconnected''\<rparr>
        else build_result (prevStatus s) env)"
  "publishLock env \<Longrightarrow> newDataReady (fetchTaskFunc env s)"
  "prevStatus (fetchTaskFunc env s) = prevStatus s"
  "\<not> publishLock env \<Longrightarrow> fetchTaskFunc env s = s"
  by (simp_all add: fetchTaskFunc_def publish_def publish_wifi_error_def strncpy_def)

text \<open>Both steps keep the shared data well formed.\<close>

lemma apply_result_prev_length:
  "length (prevStatus (apply_result now res s)) = length (prevStatus s)"
  by (cases "valid res") (simp_all add: apply_valid_fields apply_invalid_fields detect_changes_length)

lemma state_inv_fetchTaskFunc:
  "state_inv s \<Longrightarrow> state_inv (fetchTaskFunc env s)"
  by (cases "publishLock env")
     (auto simp add: state_inv_def fetchTaskFunc_slot wf_result_build wf_result_wifi)

lemma state_inv_loop:
  "state_inv s \<Longrightarrow> state_inv (loop env s)"
proof -
  have "length (prevStatus (data_block env s')) = length (prevStatus s')" for s'
    by (cases "consumeLock env")
       (simp_all add: data_block_def applyFetchResults_locked applyFetchResults_unlocked
          apply_result_prev_length)
  then have "length (prevStatus (loop env s)) = length (prevStatus s)"
    by (simp add: loop_def animate_block_fields idle_block_fields touch_block_fields)
  then show "state_inv s \<Longrightarrow> state_inv (loop env s)"
    by (simp add: state_inv_def loop_slot)
qed

text \<open>
  Claim C6, as stated, fails for the network-down branch of the task: it writes only
  \<open>valid\<close> and the status text, so after a valid publication the invalid snapshot
  still carries the three components of the one before.
\<close>

theorem invalid_snapshot_counterexample:
  "\<not> valid (fetchResult (fetchTaskFunc ex_env_offline (fetchTaskFunc (ex_env ex_feed_major 0) ex_state))) \<and>
   newDataReady (fetchTaskFunc ex_env_offline (fetchTaskFunc (ex_env ex_feed_major 0) ex_state)) \<and>
   componentCount (fetchResult (fetchTaskFunc ex_env_offline (fetchTaskFunc (ex_env ex_feed_major 0) ex_state))) = 3 \<and>
   stored_statuses (fetchResult (fetchTaskFunc ex_env_offline (fetchTaskFunc (ex_env ex_feed_major 0) ex_state)))
     = [''operational'', ''major_outage'', ''partial_outage'']"
proof -
  have l: "publishLock ex_env_offline" "publishLock (ex_env ex_feed_major 0)"
    "\<not> wifiConnected ex_env_offline" "wifiConnected (ex_env ex_feed_major 0)"
    by (simp_all add: ex_env_offline_def ex_env_def)
  have p: "prevStatus ex_state = ex_prev"
    by (simp add: ex_state_def)
  have c: "componentCount (build_result ex_prev (ex_env ex_feed_major 0)) = 3"
    and st: "stored_statuses (build_result ex_prev (ex_env ex_feed_major 0))
      = [''operational'', ''major_outage'', ''partial_outage'']"
    by code_simp+
  show ?thesis
    using l c st by (simp add: fetchTaskFunc_slot p stored_statuses_def)
qed

text \<open>
  Claim C6, amended. Let the task publish an invalid snapshot. If the network was down,
  its status text is \<open>WiFi disconnected\<close> and its component fields are those the slot
  held before. Otherwise its components list is empty (count 0, every entry zeroed), and
  its status text is \<open>JSON parse error\<close> after a successful request, or \<open>HTTP error: \<close>
  followed by the decimal code (a 32-bit \<^verbatim>\<open>int\<close>) after a failed one. Applying an invalid
  snapshot leaves the severity fields, the previous-status table and the screensaver
  state as they were.
\<close>

theorem invalid_snapshot:
  assumes "publishLock env" "\<not> valid (fetchResult (fetchTaskFunc env s))"
  shows "(\<not> wifiConnected env \<longrightarrow>
            statusBarText (fetchResult (fetchTaskFunc env s)) = ''WiFi disconnected'' \<and>
            componentCount (fetchResult (fetchTaskFunc env s)) = componentCount (fetchResult s) \<and>
            components (fetchResult (fetchTaskFunc env s)) = components (fetchResult s)) \<and>
         (wifiConnected env \<longrightarrow>
            componentCount (fetchResult (fetchTaskFunc env s)) = 0 \<and>
            components (fetchResult (fetchTaskFunc env s)) = replicate MAX_COMPONENTS zeroComponent \<and>
            (httpCode env = HTTP_CODE_OK \<longrightarrow>
               statusBarText (fetchResult (fetchTaskFunc env s)) = ''JSON parse error'') \<and>
            (httpCode env \<noteq> HTTP_CODE_OK \<and> - 2147483648 \<le> httpCode env \<and> httpCode env < 2147483648 \<longrightarrow>
               statusBarText (fetchResult (fetchTaskFunc env s)) = ''HTTP error: '' @ dec_int (httpCode env))) \<and>
         screensaverActive (apply_result now (fetchResult (fetchTaskFunc env s)) s') = screensaverActive s' \<and>
         prevStatus (apply_result now (fetchResult (fetchTaskFunc env s)) s') = prevStatus s' \<and>
         allOperational_g (apply_result now (fetchResult (fetchTaskFunc env s)) s') = allOperational_g s' \<and>
         hasUnresolvedIncidents (apply_result now (fetchResult (fetchTaskFunc env s)) s') = hasUnresolvedIncidents s' \<and>
         matrixSeverity (apply_result now (fetchResult (fetchTaskFunc env s)) s') = matrixSeverity s'"
proof -
  let ?r = "fetchResult (fetchTaskFunc env s)"
  have down: "statusBarText ?r = ''WiFi disconnected'' \<and>
      componentCount ?r = componentCount (fetchResult s) \<and> components ?r = components (fetchResult s)"
    if "\<not> wifiConnected env"
    using that assms(1) by (simp add: fetchTaskFunc_slot)
  have up: "componentCount ?r = 0 \<and> components ?r = replicate MAX_COMPONENTS zeroComponent \<and>
      (httpCode env = HTTP_CODE_OK \<longrightarrow> statusBarText ?r = ''JSON parse error'') \<and>
      (httpCode env \<noteq> HTTP_CODE_OK \<and> - 2147483648 \<le> httpCode env \<and> httpCode env < 2147483648 \<longrightarrow>
         statusBarText ?r = ''HTTP error: '' @ dec_int (httpCode env))"
    if w: "wifiConnected env"
  proof -
    from w assms(1) have r: "?r = build_result (prevStatus s) env"
      by (simp add: fetchTaskFunc_slot)
    with assms(2) have f: "\<not> (httpCode env = HTTP_CODE_OK \<and> payload env \<noteq> None)"
      by (simp add: build_result_valid)
    note fc = fetch_components_failed [OF f, of "prevStatus s"]
    have "statusBarText ?r = ''JSON parse error''" if "httpCode env = HTTP_CODE_OK"
      using that by (simp add: r build_result_frame fc(3))
    moreover have "statusBarText ?r = ''HTTP error: '' @ dec_int (httpCode env)"
      if "httpCode env \<noteq> HTTP_CODE_OK" "- 2147483648 \<le> httpCode env" "httpCode env < 2147483648"
      using that(1) http_error_text [OF that(2,3)]
      by (simp only: r build_result_frame fc(3) if_False)
    moreover have "componentCount ?r = 0" "components ?r = replicate MAX_COMPONENTS zeroComponent"
      by (simp_all add: r build_result_frame fc(1,2))
    ultimately show ?thesis
      by blast
  qed
  from down up apply_invalid_fields(1-5) [OF assms(2), of now s'] show ?thesis
    by blast
qed

theorem invalid_snapshot_witness:
  "publishLock (ex_env_http 503) \<and>
   \<not> valid (fetchResult (fetchTaskFunc (ex_env_http 503) ex_state_changed)) \<and>
   componentCount (fetchResult (fetchTaskFunc (ex_env_http 503) ex_state_changed)) = 0 \<and>
   statusBarText (fetchResult (fetchTaskFunc (ex_env_http 503) ex_state_changed)) = ''HTTP error: 503'' \<and>
   screensaverActive (apply_result 0 (fetchResult (fetchTaskFunc (ex_env_http 503) ex_state_changed))
      ex_state_changed)"
proof -
  have e: "publishLock (ex_env_http 503)" "wifiConnected (ex_env_http 503)"
    "httpCode (ex_env_http 503) = 503" "payload (ex_env_http 503) = None"
    by (simp_all add: ex_env_http_def ex_env_def)
  have n: "\<not> valid (fetchResult (fetchTaskFunc (ex_env_http 503) ex_state_changed))"
    using e by (simp add: fetchTaskFunc_slot build_result_valid)
  have d: "dec_int 503 = ''503''"
    by code_simp
  note t = invalid_snapshot [OF e(1) n, of 0 ex_state_changed]
  from t e d have "componentCount (fetchResult (fetchTaskFunc (ex_env_http 503) ex_state_changed)) = 0"
    and "statusBarText (fetchResult (fetchTaskFunc (ex_env_http 503) ex_state_changed)) = ''HTTP error: 503''"
    and "screensaverActive (apply_result 0 (fetchResult (fetchTaskFunc (ex_env_http 503) ex_state_changed))
      ex_state_changed) = screensaverActive ex_state_changed"
    by (simp_all add: HTTP_CODE_OK_def)
  with e(1) n ex_state_changed_fields(1) show ?thesis
    by simp
qed

subsection \<open>The fade of a colour\<close>

lemma m5: "(0x1F :: 16 word) = mask 5" and m6: "(0x3F :: 16 word) = mask 6"
  by (simp_all add: mask_eq_exp_minus_1)

lemma pack_red:
  "drop_bit 11 (push_bit 11 (take_bit 5 r) OR push_bit 5 (take_bit 6 g) OR take_bit 5 b) AND mask 5
     = take_bit 5 (r :: 16 word)"
  by (rule bit_word_eqI) (auto simp add: bit_simps)

lemma pack_green:
  "drop_bit 5 (push_bit 11 (take_bit 5 r) OR push_bit 5 (take_bit 6 g) OR take_bit 5 b) AND mask 6
     = take_bit 6 (g :: 16 word)"
  by (rule bit_word_eqI) (auto simp add: bit_simps)

lemma pack_blue:
  "(push_bit 11 (take_bit 5 r) OR push_bit 5 (take_bit 6 g) OR take_bit 5 b) AND mask 5
     = take_bit 5 (b :: 16 word)"
  by (rule bit_word_eqI) (auto simp add: bit_simps)

lemma unat_take_bit: "unat (take_bit n (w :: 16 word)) = unat w mod 2 ^ n"
proof -
  have "unat (take_bit n w) = take_bit n (unat w)"
    by (rule unsigned_take_bit_eq)
  then show ?thesis
    by (simp only: take_bit_eq_mod)
qed

lemma unat_and_mask: "unat ((w :: 16 word) AND mask n) = unat w mod 2 ^ n"
  by (simp only: take_bit_eq_mask [symmetric] unat_take_bit)

lemma channel_bounds:
  "unat (red565 c) < 32" "unat (green565 c) < 64" "unat (blue565 c) < 32"
  by (simp_all add: red565_def green565_def blue565_def m5 m6 unat_and_mask)

lemma take_bit_self: "unat (w :: 16 word) < 2 ^ n \<Longrightarrow> take_bit n w = w"
  by (simp add: word_unat_eq_iff unat_take_bit)

lemma clamp_sub:
  fixes x d :: "16 word"
  shows "unat (if x > d then x - d else 0) = unat x - unat d"
proof (cases "x > d")
  case True
  then have "d \<le> x" by simp
  from unat_sub [OF this] True show ?thesis by simp
next
  case False
  then have "unat x \<le> unat d"
    by (simp add: word_less_nat_alt)
  with False show ?thesis by simp
qed

lemma fade565_channels:
  "fade565 c =
     push_bit 11 (if red565 c > 2 then red565 c - 2 else 0)
     OR push_bit 5 (if green565 c > 4 then green565 c - 4 else 0)
     OR (if blue565 c > 2 then blue565 c - 2 else 0)"
  by (simp add: fade565_def red565_def green565_def blue565_def Let_def)

lemma fade565_unpack:
  "unat (red565 (fade565 c)) = unat (red565 c) - 2 \<and>
   unat (green565 (fade565 c)) = unat (green565 c) - 4 \<and>
   unat (blue565 (fade565 c)) = unat (blue565 c) - 2"
proof -
  define r where "r = (if red565 c > 2 then red565 c - 2 else 0)"
  define g where "g = (if green565 c > 4 then green565 c - 4 else 0)"
  define b where "b = (if blue565 c > 2 then blue565 c - 2 else 0)"
  have ur: "unat r = unat (red565 c) - 2" and ug: "unat g = unat (green565 c) - 4"
    and ub: "unat b = unat (blue565 c) - 2"
    using clamp_sub [of 2 "red565 c"] clamp_sub [of 4 "green565 c"] clamp_sub [of 2 "blue565 c"]
    by (simp_all add: r_def g_def b_def)
  have bd: "unat r < 2 ^ 5" "unat g < 2 ^ 6" "unat b < 2 ^ 5"
    using channel_bounds [of c] by (simp_all add: ur ug ub)
  have tr: "take_bit 5 r = r" and tg: "take_bit 6 g = g" and tb: "take_bit 5 b = b"
    by (rule take_bit_self [OF bd(1)], rule take_bit_self [OF bd(2)], rule take_bit_self [OF bd(3)])
  have "fade565 c = push_bit 11 r OR push_bit 5 g OR b"
    by (simp only: fade565_channels r_def g_def b_def)
  then have e: "fade565 c = push_bit 11 (take_bit 5 r) OR push_bit 5 (take_bit 6 g) OR take_bit 5 b"
    by (simp only: tr tg tb)
  have "red565 (fade565 c) = r"
    unfolding red565_def m5 e pack_red by (rule tr)
  moreover have "green565 (fade565 c) = g"
    unfolding green565_def m6 e pack_green by (rule tg)
  moreover have "blue565 (fade565 c) = b"
    unfolding blue565_def m5 e pack_blue by (rule tb)
  ultimately show ?thesis
    by (simp only: ur ug ub)
qed

lemma color_zero_iff:
  "c = 0 \<longleftrightarrow> red565 c = 0 \<and> green565 c = 0 \<and> blue565 c = 0"
proof
  assume "c = 0"
  then show "red565 c = 0 \<and> green565 c = 0 \<and> blue565 c = 0"
    by (simp add: red565_def green565_def blue565_def)
next
  assume z: "red565 c = 0 \<and> green565 c = 0 \<and> blue565 c = 0"
  have "c = push_bit 11 (red565 c) OR push_bit 5 (green565 c) OR blue565 c"
    unfolding red565_def green565_def blue565_def m5 m6
  proof (rule bit_word_eqI)
    fix n assume "n < LENGTH(16)"
    consider "n < 5" | "5 \<le> n" "n < 11" | "11 \<le> n" by linarith
    then show "bit c n = bit (push_bit 11 (drop_bit 11 c AND mask 5)
        OR push_bit 5 (drop_bit 5 c AND mask 6) OR c AND mask 5) n"
      using \<open>n < LENGTH(16)\<close> by cases (auto simp add: bit_simps)
  qed
  with z show "c = 0" by simp
qed

lemma fade565_zero: "fade565 0 = 0"
  by (simp add: fade565_def)

lemma fade565_iterate:
  "unat (red565 ((fade565 ^^ n) c)) = unat (red565 c) - 2 * n \<and>
   unat (green565 ((fade565 ^^ n) c)) = unat (green565 c) - 4 * n \<and>
   unat (blue565 ((fade565 ^^ n) c)) = unat (blue565 c) - 2 * n"
proof (induction n)
  case 0
  show ?case by simp
next
  case (Suc n)
  from fade565_unpack [of "(fade565 ^^ n) c"] Suc.IH show ?case
    by simp
qed

lemma fade565_reaches_zero: "(fade565 ^^ 16) c = 0"
proof -
  from fade565_iterate [of 16 c] channel_bounds [of c]
  have "unat (red565 ((fade565 ^^ 16) c)) = 0" "unat (green565 ((fade565 ^^ 16) c)) = 0"
    "unat (blue565 ((fade565 ^^ 16) c)) = 0"
    by simp_all
  then show ?thesis
    by (simp add: color_zero_iff [of "(fade565 ^^ 16) c"] unat_eq_0)
qed

lemma render_cell_outside:
  "\<not> in_trail col row \<Longrightarrow> render_cell trail col r row (g, c) = (g, fade565 c)"
  by (simp add: render_cell_def fade565_zero)

lemma render_cell_color:
  "snd (render_cell trail col r row (g, c)) =
     (if in_trail col row then
        (if distFromHead col row = 0 then 0xFFFF else trail (distFromHead col row) (length_col col))
      else fade565 c)"
  by (simp add: render_cell_def fade565_zero)

subsection \<open>A frame, cell by cell\<close>

lemma fold_pointwise:
  assumes stepI: "\<And>k s. P s \<Longrightarrow> P (f k s)"
    and obs_step: "\<And>k s j. P s \<Longrightarrow> obs (f k s) j = (if j = k then h k (obs s k) else obs s j)"
    and init: "P s"
  shows "P (fold f [0..<n] s) \<and>
         (\<forall>j. obs (fold f [0..<n] s) j = (if j < n then h j (obs s j) else obs s j))"
proof (induction n)
  case 0
  from init show ?case by simp
next
  case (Suc n)
  let ?F = "fold f [0..<n] s"
  from Suc.IH have i: "P ?F"
    and o: "\<And>j. obs ?F j = (if j < n then h j (obs s j) else obs s j)"
    by simp_all
  have "P (f n ?F)" using i by (rule stepI)
  moreover have "obs (f n ?F) j = (if j < Suc n then h j (obs s j) else obs s j)" for j
    using obs_step [OF i, of n j] by (auto simp add: o less_Suc_eq)
  ultimately show ?case by simp
qed

lemma render_cell_next_color:
  "snd (render_cell (trail565 env sev) col r row (g, c)) = next_color env sev col row c"
  by (simp add: render_cell_color next_color_def)

lemma update_columns_nth:
  "matrixCols (update_columns env s) ! i =
     (if i < numCols s \<and> i < length (matrixCols s)
      then update_column (screenH s) (col_rnd env i) (matrixCols s ! i)
      else matrixCols s ! i)"
proof -
  let ?f = "\<lambda>i cols. cols[i := update_column (screenH s) (col_rnd env i) (cols ! i)]"
  let ?L = "length (matrixCols s)"
  have "length (fold ?f [0..<numCols s] (matrixCols s)) = ?L \<and>
      (\<forall>j. fold ?f [0..<numCols s] (matrixCols s) ! j =
         (if j < numCols s
          then (if j < ?L then update_column (screenH s) (col_rnd env j) (matrixCols s ! j)
                else matrixCols s ! j)
          else matrixCols s ! j))"
    by (rule fold_pointwise [where P = "\<lambda>cols. length cols = ?L" and obs = "\<lambda>cols j. cols ! j"
          and h = "\<lambda>j c. if j < ?L then update_column (screenH s) (col_rnd env j) c else c"])
       (simp_all add: nth_update_total)
  then show ?thesis
    by (simp add: update_columns_def)
qed

lemma render_row_color:
  "matrixColors (render_row env i row s) =
     (matrixColors s)[i := (matrixColors s ! i)
        [row := next_color env (matrixSeverity s) (matrixCols s ! i) row (matrixColors s ! i ! row)]]"
proof -
  obtain g c where rc: "render_cell (trail565 env (matrixSeverity s)) (matrixCols s ! i)
      (cell_rnd env i row) row (matrixGlyphIdx s ! i ! row, matrixColors s ! i ! row) = (g, c)"
    by (cases "render_cell (trail565 env (matrixSeverity s)) (matrixCols s ! i)
      (cell_rnd env i row) row (matrixGlyphIdx s ! i ! row, matrixColors s ! i ! row)")
  from render_cell_next_color [of env "matrixSeverity s" "matrixCols s ! i" "cell_rnd env i row" row
      "matrixGlyphIdx s ! i ! row" "matrixColors s ! i ! row"]
  have c: "c = next_color env (matrixSeverity s) (matrixCols s ! i) row (matrixColors s ! i ! row)"
    by (simp add: rc)
  show ?thesis
    by (simp add: render_row_def rc Let_def ui_def c)
qed

lemma render_rows_color:
  assumes "i < length (matrixColors s)"
  shows "matrixColors (fold (render_row env i) [0..<m] s) ! i ! row =
           (if row < m \<and> row < length (matrixColors s ! i)
            then next_color env (matrixSeverity s) (matrixCols s ! i) row (matrixColors s ! i ! row)
            else matrixColors s ! i ! row)"
    and "length (matrixColors (fold (render_row env i) [0..<m] s)) = length (matrixColors s)"
    and "length (matrixColors (fold (render_row env i) [0..<m] s) ! k) = length (matrixColors s ! k)"
    and "k \<noteq> i \<Longrightarrow> matrixColors (fold (render_row env i) [0..<m] s) ! k = matrixColors s ! k"
proof -
  let ?P = "\<lambda>t::app_state. matrixCols t = matrixCols s \<and> matrixSeverity t = matrixSeverity s \<and>
     length (matrixColors t) = length (matrixColors s) \<and>
     (\<forall>k. length (matrixColors t ! k) = length (matrixColors s ! k)) \<and>
     (\<forall>k. k \<noteq> i \<longrightarrow> matrixColors t ! k = matrixColors s ! k)"
  let ?h = "\<lambda>row c. if row < length (matrixColors s ! i)
     then next_color env (matrixSeverity s) (matrixCols s ! i) row c else c"
  have "?P (fold (render_row env i) [0..<m] s) \<and>
      (\<forall>j. matrixColors (fold (render_row env i) [0..<m] s) ! i ! j =
         (if j < m then ?h j (matrixColors s ! i ! j) else matrixColors s ! i ! j))"
  proof (rule fold_pointwise [where P = ?P and obs = "\<lambda>t j. matrixColors t ! i ! j" and h = ?h])
    fix k and t :: app_state assume p: "?P t"
    with assms show "?P (render_row env i k t)"
      by (simp add: render_row_fields render_row_color nth_update_total)
  next
    fix k j and t :: app_state assume p: "?P t"
    with assms show "matrixColors (render_row env i k t) ! i ! j =
        (if j = k then ?h k (matrixColors t ! i ! k) else matrixColors t ! i ! j)"
      by (simp add: render_row_color nth_update_total)
  next
    show "?P s" by simp
  qed
  then show "matrixColors (fold (render_row env i) [0..<m] s) ! i ! row =
           (if row < m \<and> row < length (matrixColors s ! i)
            then next_color env (matrixSeverity s) (matrixCols s ! i) row (matrixColors s ! i ! row)
            else matrixColors s ! i ! row)"
    and "length (matrixColors (fold (render_row env i) [0..<m] s)) = length (matrixColors s)"
    and "length (matrixColors (fold (render_row env i) [0..<m] s) ! k) = length (matrixColors s ! k)"
    and "k \<noteq> i \<Longrightarrow> matrixColors (fold (render_row env i) [0..<m] s) ! k = matrixColors s ! k"
    by simp_all
qed

lemma fold_invariant:
  assumes "\<And>x s. Q s \<Longrightarrow> Q (f x s)" and "Q s"
  shows "Q (fold f xs s)"
  using assms(2) by (induction xs arbitrary: s) (simp_all add: assms(1))

lemma numRows_ui: "numRows (ui calls s) = numRows s"
  by (simp add: numRows_def ui_fields)

lemma render_column_color_all:
  "matrixColors (render_column env i s) ! i ! row =
     (if i < length (matrixColors s) \<and> row < numRows s \<and> row < length (matrixColors s ! i)
      then next_color env (matrixSeverity s) (matrixCols s ! i) row (matrixColors s ! i ! row)
      else matrixColors s ! i ! row) \<and>
   length (matrixColors (render_column env i s)) = length (matrixColors s) \<and>
   length (matrixColors (render_column env i s) ! k) = length (matrixColors s ! k) \<and>
   (k \<noteq> i \<longrightarrow> matrixColors (render_column env i s) ! k = matrixColors s ! k)"
proof -
  let ?s1 = "ui [SpriteFill] s"
  let ?F = "fold (render_row env i) [0..<numRows ?s1] ?s1"
  have rc: "matrixColors (render_column env i s) = matrixColors ?F"
    by (simp add: render_column_def Let_def ui_fields)
  have s1: "matrixColors ?s1 = matrixColors s" "matrixCols ?s1 = matrixCols s"
    "matrixSeverity ?s1 = matrixSeverity s" "numRows ?s1 = numRows s"
    by (simp_all add: ui_fields numRows_ui)
  show ?thesis
  proof (cases "i < length (matrixColors s)")
    case True
    then have b: "i < length (matrixColors ?s1)" by (simp add: s1)
    note r = render_rows_color [OF b, where env = env and m = "numRows ?s1"]
    from True r(1) [where row = row] r(2) r(3) [where k = k] r(4) [where k = k]
    show ?thesis
      by (simp add: rc s1)
  next
    case False
    have "matrixColors ?F = matrixColors s"
      by (rule fold_invariant [where Q = "\<lambda>t. matrixColors t = matrixColors s"])
         (use False in \<open>simp_all add: render_row_color ui_fields list_update_beyond\<close>)
    with False show ?thesis
      by (simp add: rc)
  qed
qed

lemma render_column_color:
  "matrixColors (render_column env i s) ! i ! row =
     (if i < length (matrixColors s) \<and> row < numRows s \<and> row < length (matrixColors s ! i)
      then next_color env (matrixSeverity s) (matrixCols s ! i) row (matrixColors s ! i ! row)
      else matrixColors s ! i ! row)"
  "length (matrixColors (render_column env i s)) = length (matrixColors s)"
  "length (matrixColors (render_column env i s) ! k) = length (matrixColors s ! k)"
  "k \<noteq> i \<Longrightarrow> matrixColors (render_column env i s) ! k = matrixColors s ! k"
  using render_column_color_all [of env i s row k] by blast+

lemma numRows_render_column: "numRows (render_column env i s) = numRows s"
  by (simp add: numRows_def render_column_fields)

lemma render_columns_color:
  "matrixColors (fold (render_column env) [0..<n] s) ! i ! row =
     (if i < n \<and> i < length (matrixColors s) \<and> row < numRows s \<and> row < length (matrixColors s ! i)
      then next_color env (matrixSeverity s) (matrixCols s ! i) row (matrixColors s ! i ! row)
      else matrixColors s ! i ! row)"
proof -
  let ?P = "\<lambda>t::app_state. matrixCols t = matrixCols s \<and> matrixSeverity t = matrixSeverity s \<and>
     numRows t = numRows s \<and> length (matrixColors t) = length (matrixColors s) \<and>
     (\<forall>k. length (matrixColors t ! k) = length (matrixColors s ! k))"
  let ?h = "\<lambda>i fn row. if i < length (matrixColors s) \<and> row < numRows s \<and> row < length (matrixColors s ! i)
     then next_color env (matrixSeverity s) (matrixCols s ! i) row (fn row) else fn row"
  have "?P (fold (render_column env) [0..<n] s) \<and>
      (\<forall>j. (\<lambda>row. matrixColors (fold (render_column env) [0..<n] s) ! j ! row) =
         (if j < n then ?h j (\<lambda>row. matrixColors s ! j ! row) else (\<lambda>row. matrixColors s ! j ! row)))"
  proof (rule fold_pointwise [where P = ?P and obs = "\<lambda>t j row. matrixColors t ! j ! row" and h = ?h])
    fix k and t :: app_state assume p: "?P t"
    then show "?P (render_column env k t)"
      by (simp add: render_column_fields render_column_color numRows_render_column)
  next
    fix k j and t :: app_state assume p: "?P t"
    show "(\<lambda>row. matrixColors (render_column env k t) ! j ! row) =
        (if j = k then ?h k (\<lambda>row. matrixColors t ! k ! row) else (\<lambda>row. matrixColors t ! j ! row))"
    proof (cases "j = k")
      case True
      with p show ?thesis
        by (simp add: render_column_color(1) fun_eq_iff)
    next
      case False
      with render_column_color(4) [where k = j and i = k and env = env and s = t] show ?thesis
        by simp
    qed
  next
    show "?P s" by simp
  qed
  then have "(\<lambda>row. matrixColors (fold (render_column env) [0..<n] s) ! i ! row) =
         (if i < n then ?h i (\<lambda>row. matrixColors s ! i ! row) else (\<lambda>row. matrixColors s ! i ! row))"
    by blast
  then have "matrixColors (fold (render_column env) [0..<n] s) ! i ! row =
         (if i < n then ?h i (\<lambda>row. matrixColors s ! i ! row) else (\<lambda>row. matrixColors s ! i ! row)) row"
    by (rule fun_cong)
  then show ?thesis
    by (simp split: if_splits)
qed

lemma matrixDrawFrame_cols:
  "matrixCols (matrixDrawFrame env s) =
     (if colSprite s then matrixCols (update_columns env s) else matrixCols s)"
  by (simp add: matrixDrawFrame_def Let_def
        fold_preserves [where f = "render_column env"] render_column_fields)

lemma numCols_update: "numCols (update_columns env s) = numCols s"
  and numRows_update: "numRows (update_columns env s) = numRows s"
  by (simp_all add: numCols_def numRows_def update_columns_fields)

lemma matrixDrawFrame_color:
  assumes "colSprite s"
  shows "matrixColors (matrixDrawFrame env s) ! i ! row =
     (if i < numCols s \<and> i < length (matrixColors s) \<and> row < numRows s \<and> row < length (matrixColors s ! i)
      then next_color env (matrixSeverity s) (matrixCols (matrixDrawFrame env s) ! i) row
             (matrixColors s ! i ! row)
      else matrixColors s ! i ! row)"
proof -
  have c: "matrixCols (matrixDrawFrame env s) = matrixCols (update_columns env s)"
    using assms by (simp add: matrixDrawFrame_cols)
  have d: "matrixDrawFrame env s = fold (render_column env) [0..<numCols s] (update_columns env s)"
    using assms by (simp add: matrixDrawFrame_def Let_def numCols_update)
  show ?thesis
    by (simp only: c) (simp add: d render_columns_color numRows_update update_columns_fields)
qed

subsection \<open>The life of a column\<close>

lemma int16_id: "- 32768 \<le> x \<Longrightarrow> x < 32768 \<Longrightarrow> int16 x = x"
  by (simp add: int16_def)

lemma uint8_id: "0 \<le> x \<Longrightarrow> x < 256 \<Longrightarrow> uint8 x = nat x"
  by (simp add: uint8_def)

lemma respawn_fresh:
  assumes "\<not> active col" "spawnDelay col = 0" "random_in_range r"
  shows "active (respawn_column r col)"
    and "headY (respawn_column r col) = - rnd_head r"
    and "speed (respawn_column r col) = rnd_speed r"
    and "length_col (respawn_column r col) = rnd_length r"
  using assms
  by (simp_all add: respawn_column_def random_in_range_def MATRIX_CHAR_H_def int16_id)

lemma respawn_countdown:
  "\<not> active col \<Longrightarrow> 0 < spawnDelay col \<Longrightarrow>
     respawn_column r col = col\<lparr>spawnDelay := spawnDelay col - 1\<rparr>"
  by (simp add: respawn_column_def)

lemma respawn_active: "active col \<Longrightarrow> respawn_column r col = col"
  by (simp add: respawn_column_def)

lemma advance_inactive: "\<not> active col \<Longrightarrow> advance_column h r col = col"
  by (simp add: advance_column_def)

lemma advance_deactivates:
  assumes "active col" "\<not> active (advance_column h r col)" "random_in_range r"
  shows "spawnDelay (advance_column h r col) = nat (rnd_delay r)"
  using assms
  by (simp add: advance_column_def Let_def random_in_range_def uint8_id split: if_splits)

lemma advance_fields:
  "speed (advance_column h r col) = speed col"
  "length_col (advance_column h r col) = length_col col"
  "active col \<Longrightarrow> headY (advance_column h r col) = int16 (headY col + speed col)"
  by (simp_all add: advance_column_def Let_def)

lemma matrixDrawFrame_col:
  assumes "colSprite s" "i < numCols s" "i < length (matrixCols s)"
  shows "matrixCols (matrixDrawFrame env s) ! i =
           advance_column (screenH s) (col_rnd env i) (respawn_column (col_rnd env i) (matrixCols s ! i))"
  using assms by (simp add: matrixDrawFrame_cols update_columns_nth update_column_def)

lemma column_countdown:
  "\<not> active col \<Longrightarrow> n \<le> spawnDelay col \<Longrightarrow>
     column_ticks h rnd n col = col\<lparr>spawnDelay := spawnDelay col - n\<rparr>"
proof (induction n)
  case 0
  then show ?case by simp
next
  case (Suc n)
  then have "column_ticks h rnd n col = col\<lparr>spawnDelay := spawnDelay col - n\<rparr>"
    by simp
  with Suc.prems show ?case
    by (simp add: update_column_def respawn_countdown advance_inactive)
qed

text \<open>
  A retired column does come back: after its delay has been counted down, the next tick
  starts a new drop (on a screen of non-negative height the new drop is not retired in
  the same tick).
\<close>

lemma column_reactivates:
  assumes "\<not> active col" "random_in_range (rnd (spawnDelay col))" "0 \<le> h"
  shows "active (column_ticks h rnd (Suc (spawnDelay col)) col)"
proof -
  let ?r = "rnd (spawnDelay col)"
  let ?c0 = "col\<lparr>spawnDelay := 0\<rparr>"
  have t: "column_ticks h rnd (spawnDelay col) col = ?c0"
    using column_countdown [OF assms(1) order_refl, of h rnd] by simp
  have i: "\<not> active ?c0" "spawnDelay ?c0 = 0"
    using assms(1) by simp_all
  note f = respawn_fresh [OF i assms(2)]
  from assms(2,3) f show ?thesis
    by (simp add: t update_column_def advance_column_def Let_def random_in_range_def
          MATRIX_CHAR_H_def int16_id)
qed

text \<open>
  Claim C7. In a tick of the animation every column within the screen goes through the
  respawn block and then the advance block. A column that the tick retires (active
  after the respawn block, inactive at the end) has a respawn delay between 5 and 39,
  hence positive. An inactive column whose delay is 0 is started again by the respawn
  block with a head position between -119 and 0, a speed between 14 and 25 and a trail
  length between 8 and 23; the advance block of the same tick then moves the head by the
  speed. An inactive column with a positive delay only counts down.
\<close>

theorem column_lifecycle:
  assumes "colSprite s" "i < numCols s" "i < length (matrixCols s)"
    and "random_in_range (col_rnd env i)"
  shows "matrixCols (matrixDrawFrame env s) ! i =
           advance_column (screenH s) (col_rnd env i)
             (respawn_column (col_rnd env i) (matrixCols s ! i)) \<and>
         (active (respawn_column (col_rnd env i) (matrixCols s ! i)) \<and>
          \<not> active (matrixCols (matrixDrawFrame env s) ! i) \<longrightarrow>
            5 \<le> spawnDelay (matrixCols (matrixDrawFrame env s) ! i) \<and>
            spawnDelay (matrixCols (matrixDrawFrame env s) ! i) < 40) \<and>
         (\<not> active (matrixCols s ! i) \<and> spawnDelay (matrixCols s ! i) = 0 \<longrightarrow>
            active (respawn_column (col_rnd env i) (matrixCols s ! i)) \<and>
            - 120 < headY (respawn_column (col_rnd env i) (matrixCols s ! i)) \<and>
            headY (respawn_column (col_rnd env i) (matrixCols s ! i)) \<le> 0 \<and>
            14 \<le> speed (respawn_column (col_rnd env i) (matrixCols s ! i)) \<and>
            speed (respawn_column (col_rnd env i) (matrixCols s ! i)) \<le> 25 \<and>
            8 \<le> length_col (respawn_column (col_rnd env i) (matrixCols s ! i)) \<and>
            length_col (respawn_column (col_rnd env i) (matrixCols s ! i)) \<le> 23 \<and>
            speed (matrixCols (matrixDrawFrame env s) ! i)
              = speed (respawn_column (col_rnd env i) (matrixCols s ! i)) \<and>
            length_col (matrixCols (matrixDrawFrame env s) ! i)
              = length_col (respawn_column (col_rnd env i) (matrixCols s ! i)) \<and>
            headY (matrixCols (matrixDrawFrame env s) ! i)
              = headY (respawn_column (col_rnd env i) (matrixCols s ! i))
                + speed (respawn_column (col_rnd env i) (matrixCols s ! i))) \<and>
         (\<not> active (matrixCols s ! i) \<and> 0 < spawnDelay (matrixCols s ! i) \<longrightarrow>
            matrixCols (matrixDrawFrame env s) ! i =
              (matrixCols s ! i)\<lparr>spawnDelay := spawnDelay (matrixCols s ! i) - 1\<rparr>)"
proof -
  let ?r = "col_rnd env i"
  let ?c = "matrixCols s ! i"
  let ?c1 = "respawn_column ?r ?c"
  let ?c' = "matrixCols (matrixDrawFrame env s) ! i"
  have e: "?c' = advance_column (screenH s) ?r ?c1"
    by (rule matrixDrawFrame_col [OF assms(1-3)])
  have rng: "5 \<le> rnd_delay ?r" "rnd_delay ?r < 40" "0 \<le> rnd_head ?r" "rnd_head ?r < 120"
    "14 \<le> rnd_speed ?r" "rnd_speed ?r < 26" "8 \<le> rnd_length ?r" "rnd_length ?r < 24"
    using assms(4) by (simp_all add: random_in_range_def MATRIX_CHAR_H_def)
  have d: "5 \<le> spawnDelay ?c' \<and> spawnDelay ?c' < 40" if "active ?c1" "\<not> active ?c'"
  proof -
    from that have "spawnDelay ?c' = nat (rnd_delay ?r)"
      unfolding e by (rule advance_deactivates [OF _ _ assms(4)])
    with rng(1,2) show ?thesis by linarith
  qed
  have f: "active ?c1 \<and> - 120 < headY ?c1 \<and> headY ?c1 \<le> 0 \<and> 14 \<le> speed ?c1 \<and> speed ?c1 \<le> 25 \<and>
      8 \<le> length_col ?c1 \<and> length_col ?c1 \<le> 23 \<and> speed ?c' = speed ?c1 \<and>
      length_col ?c' = length_col ?c1 \<and> headY ?c' = headY ?c1 + speed ?c1"
    if "\<not> active ?c" "spawnDelay ?c = 0"
  proof -
    note fr = respawn_fresh [OF that assms(4)]
    have "headY ?c' = int16 (headY ?c1 + speed ?c1)"
      unfolding e by (rule advance_fields(3) [OF fr(1)])
    also have "\<dots> = headY ?c1 + speed ?c1"
      using rng by (simp add: fr int16_id)
    finally show ?thesis
      using rng fr by (simp add: e advance_fields)
  qed
  have c: "?c' = ?c\<lparr>spawnDelay := spawnDelay ?c - 1\<rparr>" if "\<not> active ?c" "0 < spawnDelay ?c"
    using that by (simp add: e respawn_countdown advance_inactive)
  from e d f c show ?thesis
    by blast
qed

lemma ex_state_cols_fields:
  "colSprite ex_state_cols" "screenH ex_state_cols = 720" "screenW ex_state_cols = 1280"
  "length (matrixCols ex_state_cols) = MATRIX_MAX_COLS"
  "matrixCols ex_state_cols ! 0
     = \<lparr>headY = 1000, speed = 14, length_col = 8, active = True, spawnDelay = 0\<rparr>"
  "matrixCols ex_state_cols ! 1
     = \<lparr>headY = 1000, speed = 14, length_col = 8, active = False, spawnDelay = 0\<rparr>"
  by (simp_all add: ex_state_cols_def ex_state_def MATRIX_MAX_COLS_def)

lemma ex_numCols: "numCols ex_state_cols = 58"
  by (simp add: numCols_def ex_state_cols_fields c_div_def MATRIX_CHAR_W_def MATRIX_MAX_COLS_def)

theorem column_lifecycle_witness:
  "\<not> active (matrixCols (matrixDrawFrame ex_frame_env ex_state_cols) ! 0) \<and>
   spawnDelay (matrixCols (matrixDrawFrame ex_frame_env ex_state_cols) ! 0) = 5 \<and>
   active (matrixCols (matrixDrawFrame ex_frame_env ex_state_cols) ! 1) \<and>
   headY (respawn_column (col_rnd ex_frame_env 1) (matrixCols ex_state_cols ! 1)) = - 30 \<and>
   headY (matrixCols (matrixDrawFrame ex_frame_env ex_state_cols) ! 1) = - 16"
proof -
  have h: "colSprite ex_state_cols" "0 < numCols ex_state_cols" "1 < numCols ex_state_cols"
    "0 < length (matrixCols ex_state_cols)" "1 < length (matrixCols ex_state_cols)"
    by (simp_all add: ex_state_cols_fields ex_numCols MATRIX_MAX_COLS_def)
  have r: "random_in_range (col_rnd ex_frame_env 0)" "random_in_range (col_rnd ex_frame_env 1)"
    by (simp_all add: ex_frame_env_def random_in_range_def MATRIX_CHAR_H_def)
  note t0 = column_lifecycle [OF h(1) h(2) h(4) r(1), THEN conjunct1]
  note t1 = column_lifecycle [OF h(1) h(3) h(5) r(2), THEN conjunct1]
  have a0: "advance_column (screenH ex_state_cols) (col_rnd ex_frame_env 0)
        (respawn_column (col_rnd ex_frame_env 0) (matrixCols ex_state_cols ! 0))
      = \<lparr>headY = 1014, speed = 14, length_col = 8, active = False, spawnDelay = 5\<rparr>"
    unfolding ex_state_cols_fields
    by (simp add: ex_frame_env_def advance_column_def respawn_column_def Let_def int16_def
          uint8_def MATRIX_CHAR_H_def)
  have a1: "respawn_column (col_rnd ex_frame_env 1) (matrixCols ex_state_cols ! 1)
      = \<lparr>headY = - 30, speed = 14, length_col = 8, active = True, spawnDelay = 0\<rparr>"
    unfolding ex_state_cols_fields
    by (simp add: ex_frame_env_def respawn_column_def int16_def)
  have a2: "advance_column (screenH ex_state_cols) (col_rnd ex_frame_env 1)
        \<lparr>headY = - 30, speed = 14, length_col = 8, active = True, spawnDelay = 0\<rparr>
      = \<lparr>headY = - 16, speed = 14, length_col = 8, active = True, spawnDelay = 0\<rparr>"
    unfolding ex_state_cols_fields
    by (simp add: ex_frame_env_def advance_column_def Let_def int16_def MATRIX_CHAR_H_def)
  show ?thesis
    unfolding t0 t1 a0 a1 a2 by simp
qed

subsection \<open>Cells outside the trail\<close>

lemma word_less_from_unat:
  fixes a b :: "16 word"
  shows "unat a < unat b \<Longrightarrow> a < b"
  by (simp add: word_less_nat_alt)

lemma channel_decreases:
  fixes x y :: "16 word"
  assumes "unat y = unat x - d" "0 < d" "x \<noteq> 0"
  shows "y < x"
proof -
  from assms(3) have "0 < unat x"
    by (simp add: unat_gt_0)
  with assms(1,2) have "unat y < unat x" by simp
  then show ?thesis by (rule word_less_from_unat)
qed

text \<open>
  Claim C8. In a tick, a cell of a column on the screen that lies outside the column's
  active trail gets the faded colour of its old one. Fading subtracts 2 from the red
  and the blue channel and 4 from the green channel of the RGB565 value, stopping at
  zero, so every nonzero channel strictly decreases; the colour is zero exactly when
  all three channels are; sixteen fades bring any colour to zero, and zero stays zero.
\<close>

theorem trail_fade:
  assumes "colSprite s" "i < numCols s" "i < length (matrixColors s)"
    and "row < numRows s" "row < length (matrixColors s ! i)"
    and "\<not> in_trail (matrixCols (matrixDrawFrame env s) ! i) row"
  shows "matrixColors (matrixDrawFrame env s) ! i ! row = fade565 (matrixColors s ! i ! row) \<and>
         unat (red565 (fade565 c)) = unat (red565 c) - 2 \<and>
         unat (green565 (fade565 c)) = unat (green565 c) - 4 \<and>
         unat (blue565 (fade565 c)) = unat (blue565 c) - 2 \<and>
         (red565 c \<noteq> 0 \<longrightarrow> red565 (fade565 c) < red565 c) \<and>
         (green565 c \<noteq> 0 \<longrightarrow> green565 (fade565 c) < green565 c) \<and>
         (blue565 c \<noteq> 0 \<longrightarrow> blue565 (fade565 c) < blue565 c) \<and>
         (c = 0 \<longleftrightarrow> red565 c = 0 \<and> green565 c = 0 \<and> blue565 c = 0) \<and>
         (fade565 ^^ 16) c = 0 \<and> fade565 0 = 0"
proof -
  have cell: "matrixColors (matrixDrawFrame env s) ! i ! row = fade565 (matrixColors s ! i ! row)"
    using assms by (simp add: matrixDrawFrame_color next_color_def)
  note u = fade565_unpack [of c]
  have r: "red565 (fade565 c) < red565 c" if "red565 c \<noteq> 0"
    by (rule channel_decreases [OF u [THEN conjunct1] _ that]) simp
  have g: "green565 (fade565 c) < green565 c" if "green565 c \<noteq> 0"
    by (rule channel_decreases [OF u [THEN conjunct2, THEN conjunct1] _ that]) simp
  have b: "blue565 (fade565 c) < blue565 c" if "blue565 c \<noteq> 0"
    by (rule channel_decreases [OF u [THEN conjunct2, THEN conjunct2] _ that]) simp
  from cell u r g b color_zero_iff [of c] fade565_reaches_zero [of c] fade565_zero
  show ?thesis
    by blast
qed

lemma ex_state_fading_fields:
  "colSprite ex_state_fading" "screenH ex_state_fading = 720" "screenW ex_state_fading = 1280"
  "length (matrixCols ex_state_fading) = MATRIX_MAX_COLS"
  "length (matrixColors ex_state_fading) = MATRIX_MAX_COLS"
  "matrixCols ex_state_fading ! 0 = ex_column"
  by (simp_all add: ex_state_fading_def ex_state_def MATRIX_MAX_COLS_def)

lemma ex_state_fading_cell:
  "length (matrixColors ex_state_fading ! 0) = MATRIX_ROWS_MAX"
  "matrixColors ex_state_fading ! 0 ! 20 = 0x07E0"
  by (simp_all add: ex_state_fading_def ex_state_def MATRIX_MAX_COLS_def MATRIX_ROWS_MAX_def)

theorem trail_fade_witness:
  "\<not> in_trail (matrixCols (matrixDrawFrame ex_frame_env ex_state_fading) ! 0) 20 \<and>
   matrixColors ex_state_fading ! 0 ! 20 = 0x07E0 \<and>
   matrixColors (matrixDrawFrame ex_frame_env ex_state_fading) ! 0 ! 20 = 0x0760"
proof -
  have n: "numCols ex_state_fading = 58" "numRows ex_state_fading = 24"
    by (simp_all add: numCols_def numRows_def ex_state_fading_fields c_div_def MATRIX_CHAR_W_def
          MATRIX_CHAR_H_def MATRIX_MAX_COLS_def)
  have h: "colSprite ex_state_fading" "0 < numCols ex_state_fading"
    "0 < length (matrixColors ex_state_fading)" "20 < numRows ex_state_fading"
    "20 < length (matrixColors ex_state_fading ! 0)" "0 < length (matrixCols ex_state_fading)"
    by (simp_all add: ex_state_fading_fields ex_state_fading_cell n MATRIX_MAX_COLS_def
          MATRIX_ROWS_MAX_def)
  have col: "matrixCols (matrixDrawFrame ex_frame_env ex_state_fading) ! 0
      = \<lparr>headY = 14, speed = 14, length_col = 8, active = True, spawnDelay = 0\<rparr>"
    unfolding matrixDrawFrame_col [OF h(1) h(2) h(6)] ex_state_fading_fields
    by (simp add: ex_frame_env_def ex_column_def advance_column_def respawn_column_def Let_def
          int16_def MATRIX_CHAR_H_def)
  have out: "\<not> in_trail (matrixCols (matrixDrawFrame ex_frame_env ex_state_fading) ! 0) 20"
    unfolding col
    by (simp add: in_trail_def distFromHead_def c_div_def int16_def MATRIX_CHAR_H_def)
  have f: "fade565 0x07E0 = 0x0760"
    by (simp add: fade565_def Let_def)
  from trail_fade [OF h(1-5) out, THEN conjunct1] out show ?thesis
    by (simp add: ex_state_fading_cell f)
qed

end
